theory Spec2Isabelle
  imports Main
begin

text \<open>
  A model of the Reddit worker: the fetcher that walks a subreddit's newest posts back to
  a cutoff and reads each post's comment tree, the transformation of a post and its
  comments into documents, their ingestion into the vector store, the Reddit client's
  request loop, the job manager and the channel worker. Network answers, the clock and worker threads are
  the environment: functions of what has happened so far, or given event sequences.
\<close>

section \<open>Reddit listings and the comment tree (src/reddit/fetcher.js)\<close>

text \<open>
  The fields of a \<open>t1\<close> thing that \<open>flattenComments\<close> reads. Identifiers, authors and
  bodies are JavaScript strings; scores and creation times are numbers, taken as integers.
\<close>

record raw_comment =
  rc_id :: string
  rc_author :: string
  rc_body :: string
  rc_score :: int
  rc_created_utc :: int
  rc_permalink :: string
  rc_parent_id :: string

text \<open>
  A value of the Reddit JSON as the fetcher inspects it: \<open>Falsy\<close> stands for every value
  that is not an object (\<open>null\<close>, \<open>undefined\<close>, the empty string Reddit sends for "no
  replies"); \<open>Listing\<close> is an object of kind \<open>Listing\<close> with its \<open>data.children\<close>;
  \<open>T1\<close> is a comment with its \<open>replies\<close> field; \<open>More\<close> is a "load more comments"
  placeholder with its count; \<open>OtherThing\<close> is an object of any other kind. The children
  of a listing are objects.
\<close>

datatype thing =
    Falsy
  | Listing "thing list"
  | T1 raw_comment thing
  | More nat
  | OtherThing string

text \<open>The comment object built by \<open>flattenComments\<close>; \<open>replies\<close> stays nested.\<close>

datatype comment = Comment
  (c_id: string) (c_author: string) (c_body: string) (c_score: int) (c_created_utc: int)
  (c_depth: nat) (c_permalink: string) (c_parent_id: string) (c_replies: "comment list")

definition is_deleted :: "raw_comment \<Rightarrow> bool" where
  "is_deleted c \<longleftrightarrow>
     rc_author c = ''[deleted]'' \<or> rc_body c = ''[deleted]'' \<or> rc_body c = ''[removed]''"

text \<open>
  \<open>flattenComments\<close> returns the empty list unless its argument is a listing; the loop over
  \<open>data.children\<close> is \<open>flattenChildren\<close>. A deleted comment hits \<open>continue\<close> before its
  replies are looked at; a \<open>more\<close> placeholder and any other kind add nothing.
\<close>

fun flattenComments :: "thing \<Rightarrow> nat \<Rightarrow> comment list"
  and flattenChildren :: "thing list \<Rightarrow> nat \<Rightarrow> comment list" where
  "flattenComments (Listing children) depth = flattenChildren children depth"
| "flattenComments _ depth = []"
| "flattenChildren [] depth = []"
| "flattenChildren (T1 c reps # items) depth =
     (if is_deleted c then flattenChildren items depth
      else Comment (rc_id c) (rc_author c) (rc_body c) (rc_score c) (rc_created_utc c)
             depth (rc_permalink c) (rc_parent_id c)
             (if reps \<noteq> Falsy then flattenComments reps (depth + 1) else [])
           # flattenChildren items depth)"
| "flattenChildren (_ # items) depth = flattenChildren items depth"

text \<open>\<open>countComments\<close>: the length of the list plus the count of every \<open>replies\<close> list.\<close>

fun countComments :: "comment list \<Rightarrow> nat" where
  "countComments [] = 0"
| "countComments (Comment i a b s t d p q rs # cs) = 1 + countComments rs + countComments cs"

text \<open>Every comment object of a result, at any depth, parents before their replies.\<close>

fun all_comments :: "comment list \<Rightarrow> comment list" where
  "all_comments [] = []"
| "all_comments (Comment i a b s t d p q rs # cs) =
     Comment i a b s t d p q rs # all_comments rs @ all_comments cs"

definition marked_deleted :: "comment \<Rightarrow> bool" where
  "marked_deleted c \<longleftrightarrow>
     c_author c = ''[deleted]'' \<or> c_body c = ''[deleted]'' \<or> c_body c = ''[removed]''"


subsection \<open>Feed pages and fetched posts\<close>

text \<open>
  The fields of a \<open>t3\<close> thing that the fetcher reads. \<open>selftext\<close> and \<open>link_flair_text\<close>
  may be absent or \<open>null\<close> (\<open>None\<close>); \<open>rp_awardings\<close> is \<open>all_awardings?.length || 0\<close>.
  The fractional \<open>upvote_ratio\<close> is only copied by the source and is left out.
\<close>

record raw_post =
  rp_id :: string
  rp_title :: string
  rp_author :: string
  rp_selftext :: "string option"
  rp_permalink :: string
  rp_created_utc :: int
  rp_score :: int
  rp_num_comments :: int
  rp_awardings :: nat
  rp_link_flair_text :: "string option"
  rp_is_self :: bool
  rp_domain :: string

datatype feed_item = T3 raw_post | OtherItem string

text \<open>
  What \<open>fetchPosts\<close> reads of a feed page: \<open>data.children\<close> (empty when absent) and the
  continuation token \<open>data.after\<close>.
\<close>

record page =
  pg_children :: "feed_item list"
  pg_after :: "string option"

text \<open>\<open>postObj\<close> of \<open>extractPostData\<close>.\<close>

record post =
  p_id :: string
  p_title :: string
  p_author :: string
  p_content :: string
  p_url :: string
  p_created_utc :: int
  p_score :: int
  p_num_comments :: int
  p_awards :: nat
  p_flair :: string
  p_is_self :: bool
  p_domain :: string

text \<open>
  The object \<open>fetchPosts\<close> pushes for each post. Its \<open>metadata\<close> (wall-clock fetch time,
  window label, test flag) is read by nothing downstream and is left out.
\<close>

record reddit_post =
  fp_id :: string
  fp_source :: string
  fp_subreddit :: string
  fp_post :: post
  fp_comments :: "comment list"

text \<open>
  A time value that \<open>new Date\<close> accepts: at most 8.64e15 milliseconds from the epoch on
  either side. For any other number the date is invalid and \<open>toISOString\<close> throws a
  \<open>RangeError\<close> with the message \<open>Invalid time value\<close>.
\<close>

definition valid_date :: "int \<Rightarrow> bool" where
  "valid_date ms \<longleftrightarrow> - 8640000000000000 \<le> ms \<and> ms \<le> 8640000000000000"

text \<open>JavaScript truthiness of a value that is a string, \<open>null\<close> or \<open>undefined\<close>.\<close>

fun truthy :: "string option \<Rightarrow> bool" where
  "truthy None = False"
| "truthy (Some s) = (s \<noteq> [])"

text \<open>\<open>x || d\<close> for such a value and a string default.\<close>

fun or_else :: "string option \<Rightarrow> string \<Rightarrow> string" where
  "or_else None d = d"
| "or_else (Some s) d = (if s \<noteq> [] then s else d)"

text \<open>
  The calls the fetcher makes on its \<open>RedditClient\<close>, in order. The client is the
  fetcher's environment: each answer may depend on every call made before it.
  \<open>api_authenticate\<close> answers \<open>Some message\<close> when \<open>authenticate\<close> throws;
  the two fetches answer \<open>Inl message\<close> when \<open>makeRequest\<close> throws. The answer of
  \<open>fetchPostComments\<close> is the JSON array Reddit returns (the listing of the post, then
  the listing of its comments).
\<close>

datatype fetch_event =
    Authenticate
  | PageRequest "string option"
  | CommentsRequest string

record reddit_api =
  api_authenticate :: "fetch_event list \<Rightarrow> string option"
  api_fetchNewPosts :: "fetch_event list \<Rightarrow> string option \<Rightarrow> string + page"
  api_fetchPostComments :: "fetch_event list \<Rightarrow> string \<Rightarrow> string + thing list"

definition postObj :: "raw_post \<Rightarrow> post" where
  "postObj rp =
     \<lparr> p_id = rp_id rp, p_title = rp_title rp, p_author = rp_author rp,
       p_content = or_else (rp_selftext rp) [],
       p_url = ''https://reddit.com'' @ rp_permalink rp,
       p_created_utc = rp_created_utc rp, p_score = rp_score rp,
       p_num_comments = rp_num_comments rp, p_awards = rp_awardings rp,
       p_flair = or_else (rp_link_flair_text rp) [],
       p_is_self = rp_is_self rp, p_domain = rp_domain rp \<rparr>"

text \<open>
  \<open>extractPostData\<close>: one comments request; a failure is logged and leaves the post with
  no comments.
\<close>

definition extractPostData ::
  "reddit_api \<Rightarrow> fetch_event list \<Rightarrow> raw_post \<Rightarrow> (post \<times> comment list) \<times> fetch_event list" where
  "extractPostData api tr rp =
     ((postObj rp,
       (case api_fetchPostComments api tr (rp_id rp) of
          Inl e \<Rightarrow> []
        | Inr commentData \<Rightarrow>
            if length commentData > 1 then flattenComments (commentData ! 1) 0 else [])),
      tr @ [CommentsRequest (rp_id rp)])"

definition post_deleted :: "raw_post \<Rightarrow> bool" where
  "post_deleted rp \<longleftrightarrow> rp_author rp = ''[deleted]'' \<or> rp_selftext rp = Some ''[removed]''"

text \<open>\<open>posts.length < maxPosts\<close> with \<open>maxPosts = testMode ? 5 : Infinity\<close>.\<close>

definition below_max :: "bool \<Rightarrow> nat \<Rightarrow> bool" where
  "below_max testMode n \<longleftrightarrow> (if testMode then n < 5 else True)"

text \<open>
  The \<open>for\<close> loop over one page's children. The result is the new value of
  \<open>beforeReachedCutoff\<close>, the posts so far and the calls so far. A child that is not a
  \<open>t3\<close> is passed over; a \<open>t3\<close> older than the cutoff sets the flag and breaks, before
  the deleted check; reaching the test-mode limit sets the flag and breaks too.
\<close>

fun processChildren ::
  "reddit_api \<Rightarrow> string \<Rightarrow> int \<Rightarrow> bool \<Rightarrow> feed_item list \<Rightarrow> bool \<Rightarrow> reddit_post list \<Rightarrow>
     fetch_event list \<Rightarrow> bool \<times> reddit_post list \<times> fetch_event list" where
  "processChildren api sub cutoffTime testMode [] flag posts tr = (flag, posts, tr)"
| "processChildren api sub cutoffTime testMode (OtherItem k # rest) flag posts tr =
     processChildren api sub cutoffTime testMode rest flag posts tr"
| "processChildren api sub cutoffTime testMode (T3 rp # rest) flag posts tr =
     (if rp_created_utc rp < cutoffTime then (True, posts, tr)
      else if post_deleted rp then processChildren api sub cutoffTime testMode rest flag posts tr
      else
        (case extractPostData api tr rp of
           ((po, cs), tr') \<Rightarrow>
             let posts' = posts @ [\<lparr> fp_id = ''reddit_post_'' @ p_id po, fp_source = ''reddit'',
                                     fp_subreddit = sub, fp_post = po, fp_comments = cs \<rparr>]
             in if testMode \<and> \<not> below_max testMode (length posts') then (True, posts', tr')
                else processChildren api sub cutoffTime testMode rest flag posts' tr'))"

text \<open>
  The \<open>while\<close> loop. Nothing bounds the number of pages outside test mode, so the loop
  takes fuel: one unit per page request, \<open>None\<close> when it runs out. The loop condition is
  tested before fuel is spent. A thrown error leaves through \<open>Inl\<close> with the calls made.
\<close>

fun fetchLoop ::
  "nat \<Rightarrow> reddit_api \<Rightarrow> string \<Rightarrow> int \<Rightarrow> bool \<Rightarrow> string option \<Rightarrow> bool \<Rightarrow> reddit_post list \<Rightarrow>
     fetch_event list \<Rightarrow> ((string + reddit_post list) \<times> fetch_event list) option" where
  "fetchLoop fuel api sub cutoffTime testMode after flag posts tr =
     (if \<not> (\<not> flag \<and> below_max testMode (length posts)) then Some (Inr posts, tr)
      else
        (case fuel of
           0 \<Rightarrow> None
         | Suc n \<Rightarrow>
             (case api_fetchNewPosts api tr after of
                Inl e \<Rightarrow> Some (Inl e, tr @ [PageRequest after])
              | Inr data \<Rightarrow>
                  if pg_children data = [] then Some (Inr posts, tr @ [PageRequest after])
                  else
                    (case processChildren api sub cutoffTime testMode (pg_children data)
                            flag posts (tr @ [PageRequest after]) of
                       (flag', posts', tr') \<Rightarrow>
                         if \<not> truthy (pg_after data) then Some (Inr posts', tr')
                         else fetchLoop n api sub cutoffTime testMode (pg_after data)
                                flag' posts' tr'))))"

text \<open>
  \<open>calculateTimeWindow\<close>: \<open>hours\<close> and \<open>days\<close> are numbers or \<open>null\<close>; zero is falsy.
  \<open>now\<close> is \<open>Date.now()\<close> in milliseconds.
\<close>

definition calculateTimeWindow :: "int \<Rightarrow> nat option \<Rightarrow> nat option \<Rightarrow> string + int" where
  "calculateTimeWindow now hours days =
     (case hours of
        Some h \<Rightarrow>
          if h \<noteq> 0 then Inr ((now - int h * 60 * 60 * 1000) div 1000)
          else (case days of
                  Some d \<Rightarrow> if d \<noteq> 0 then Inr ((now - int d * 24 * 60 * 60 * 1000) div 1000)
                            else Inl ''Must specify either hours or days''
                | None \<Rightarrow> Inl ''Must specify either hours or days'')
      | None \<Rightarrow>
          (case days of
             Some d \<Rightarrow> if d \<noteq> 0 then Inr ((now - int d * 24 * 60 * 60 * 1000) div 1000)
                       else Inl ''Must specify either hours or days''
           | None \<Rightarrow> Inl ''Must specify either hours or days''))"

text \<open>
  The body of \<open>fetchPosts\<close> once the cutoff is known: authenticate, then paginate.
  Before it, \<open>fetchPosts\<close> logs the cutoff as an ISO date, outside the \<open>try\<close>: a cutoff
  that is no valid date throws there.
\<close>

definition fetchSince ::
  "nat \<Rightarrow> reddit_api \<Rightarrow> string \<Rightarrow> int \<Rightarrow> bool \<Rightarrow>
     ((string + reddit_post list) \<times> fetch_event list) option" where
  "fetchSince fuel api sub cutoffTime testMode =
     (case api_authenticate api [] of
        Some e \<Rightarrow> Some (Inl e, [Authenticate])
      | None \<Rightarrow> fetchLoop fuel api sub cutoffTime testMode None False [] [Authenticate])"

definition fetchPosts ::
  "nat \<Rightarrow> reddit_api \<Rightarrow> string \<Rightarrow> int \<Rightarrow> nat option \<Rightarrow> nat option \<Rightarrow> bool \<Rightarrow>
     ((string + reddit_post list) \<times> fetch_event list) option" where
  "fetchPosts fuel api sub now hours days testMode =
     (case calculateTimeWindow now hours days of
        Inl e \<Rightarrow> Some (Inl e, [])
      | Inr cutoffTime \<Rightarrow>
          if \<not> valid_date (cutoffTime * 1000) then Some (Inl ''Invalid time value'', [])
          else fetchSince fuel api sub cutoffTime testMode)"

text \<open>A page child that is a post older than the cutoff.\<close>

fun is_old :: "int \<Rightarrow> feed_item \<Rightarrow> bool" where
  "is_old cutoffTime (T3 rp) = (rp_created_utc rp < cutoffTime)"
| "is_old cutoffTime (OtherItem k) = False"

fun item_id :: "feed_item \<Rightarrow> string" where
  "item_id (T3 rp) = rp_id rp"
| "item_id (OtherItem k) = []"


section \<open>Transformation and ingestion (src/ingestion/vectordb.js)\<close>

text \<open>
  A document sent to the store. \<open>d_timestamp\<close> is the argument of \<open>new Date\<close>
  (milliseconds since the epoch) rather than its ISO rendering; \<open>d_comments\<close> is
  present on the post's document only.
\<close>

record item =
  d_platform :: string
  d_source :: string
  d_id :: string
  d_timestamp :: int
  d_deeplink :: string
  d_author :: string
  d_title :: string
  d_body :: string
  d_isComment :: bool
  d_comments :: "int option"
  d_likes :: int

text \<open>
  \<open>transformCommentsToVectorFormat\<close>. \<open>parentCommentId\<close> is \<open>null\<close> at the top level and
  the parent's id below; the id is qualified with the post id when \<open>parentCommentId\<close> is
  truthy. Building a comment's item renders its time as an ISO date, which throws for an
  invalid date (\<open>Inl\<close>, with the error's message); the items built so far are lost
  with the call.
\<close>

fun transformCommentsToVectorFormat ::
  "comment list \<Rightarrow> string \<Rightarrow> string \<Rightarrow> string option \<Rightarrow> string + item list" where
  "transformCommentsToVectorFormat [] postId subreddit parentCommentId = Inr []"
| "transformCommentsToVectorFormat (Comment i a b s t d p q rs # cs) postId subreddit
       parentCommentId =
     (if \<not> valid_date (t * 1000) then Inl ''Invalid time value''
      else
        (case (if rs \<noteq> [] then transformCommentsToVectorFormat rs postId subreddit (Some i)
               else Inr []) of
           Inl e \<Rightarrow> Inl e
         | Inr replyItems \<Rightarrow>
             (case transformCommentsToVectorFormat cs postId subreddit parentCommentId of
                Inl e \<Rightarrow> Inl e
              | Inr restItems \<Rightarrow>
                  Inr (\<lparr> d_platform = subreddit, d_source = ''Reddit'',
                         d_id = (if truthy parentCommentId then postId @ ''_'' @ i else i),
                         d_timestamp = t * 1000, d_deeplink = ''https://reddit.com'' @ p,
                         d_author = a, d_title = [], d_body = b, d_isComment = True,
                         d_comments = None, d_likes = s \<rparr>
                       # replyItems @ restItems))))"

text \<open>
  \<open>transformPostToVectorFormat\<close>; \<open>platformName\<close> may be \<open>undefined\<close>. The post's item
  renders the post's time as an ISO date first, and throws as above.
\<close>

definition transformPostToVectorFormat ::
  "reddit_post \<Rightarrow> string option \<Rightarrow> string + item list" where
  "transformPostToVectorFormat redditPost platformName =
     (let po = fp_post redditPost; comments = fp_comments redditPost
      in if \<not> valid_date (p_created_utc po * 1000) then Inl ''Invalid time value''
         else
           (let postItem =
                  \<lparr> d_platform = or_else platformName (fp_subreddit redditPost),
                    d_source = ''Reddit'', d_id = p_id po,
                    d_timestamp = p_created_utc po * 1000, d_deeplink = p_url po,
                    d_author = p_author po, d_title = p_title po,
                    d_body = or_else (Some (p_content po)) (p_title po),
                    d_isComment = False, d_comments = Some (p_num_comments po),
                    d_likes = p_score po \<rparr>
            in case (if comments \<noteq> [] then
                       transformCommentsToVectorFormat comments (p_id po)
                         (or_else platformName (fp_subreddit redditPost)) None
                     else Inr []) of
                 Inl e \<Rightarrow> Inl e
               | Inr commentItems \<Rightarrow> Inr ([postItem] @ commentItems)))"

subsection \<open>Ingestion\<close>

text \<open>
  What one \<open>axios.post\<close> comes back with: a 2xx answer with \<open>base_id\<close> and
  \<open>chunks_created\<close>, an error answer with its status, message and body, or an error with
  no response at all (\<open>error.response\<close> undefined).
\<close>

datatype store_response =
    StoreOk string nat
  | StoreError nat string string
  | NoResponse string

datatype ingest_result =
    Ingested string string nat
  | NotIngested string string "string option"

record ingest_failure =
  f_id :: string
  f_error :: string
  f_details :: "string option"

record results =
  r_total :: nat
  r_successful :: nat
  r_failed :: nat
  r_posts :: nat
  r_comments :: nat
  r_errors :: "ingest_failure list"

text \<open>What happens at the store and on the timer, in order.\<close>

datatype ingest_event = Posted item | Slept nat

text \<open>
  The store is the ingestor's environment: its answer to a request may depend on every
  event before it.
\<close>

type_synonym store = "ingest_event list \<Rightarrow> item \<Rightarrow> store_response"

text \<open>
  \<open>ingestItem\<close>: the loop over \<open>attempt\<close>, from the attempt given, with \<open>maxRetries = 3\<close>.
  \<open>Inl\<close> is the thrown authentication error; every other outcome is returned.
\<close>

definition maxRetries :: nat where
  "maxRetries = 3"

function ingestAttempts ::
  "store \<Rightarrow> item \<Rightarrow> nat \<Rightarrow> ingest_event list \<Rightarrow> (string + ingest_result) \<times> ingest_event list"
  where
  "ingestAttempts srv it attempt tr =
     (if attempt < maxRetries then
        (case srv tr it of
           StoreOk base_id chunks \<Rightarrow> (Inr (Ingested (d_id it) base_id chunks), tr @ [Posted it])
         | StoreError status msg body \<Rightarrow>
             if status = 401 \<or> status = 403 then
               (Inl ''Vector DB authentication failed. Check your API token.'', tr @ [Posted it])
             else if status = 422 then
               (Inr (NotIngested (d_id it) ''Validation error'' (Some body)), tr @ [Posted it])
             else if status = 429 \<or> status \<ge> 500 then
               ingestAttempts srv it (attempt + 1)
                 (tr @ [Posted it, Slept (2 ^ attempt * 1000)])
             else (Inr (NotIngested (d_id it) msg None), tr @ [Posted it])
         | NoResponse msg \<Rightarrow> (Inr (NotIngested (d_id it) msg None), tr @ [Posted it]))
      else (Inr (NotIngested (d_id it) ''Max retries (3) exceeded'' None), tr))"
  by pat_completeness auto
termination
  by (relation "measure (\<lambda>(srv, it, attempt, tr). maxRetries - attempt)") auto

definition ingestItem ::
  "store \<Rightarrow> item \<Rightarrow> ingest_event list \<Rightarrow> (string + ingest_result) \<times> ingest_event list" where
  "ingestItem srv it tr = ingestAttempts srv it 0 tr"

definition record_result :: "item \<Rightarrow> ingest_result \<Rightarrow> results \<Rightarrow> results" where
  "record_result it r res =
     (case r of
        Ingested i base_id chunks \<Rightarrow>
          (if d_isComment it
           then res\<lparr> r_successful := r_successful res + 1, r_comments := r_comments res + 1 \<rparr>
           else res\<lparr> r_successful := r_successful res + 1, r_posts := r_posts res + 1 \<rparr>)
      | NotIngested i err details \<Rightarrow>
          res\<lparr> r_failed := r_failed res + 1,
               r_errors := r_errors res @
                 [\<lparr> f_id = d_id it, f_error = err, f_details = details \<rparr>] \<rparr>)"

text \<open>
  The inner loop of \<open>ingestPosts\<close> over one post's items: a thrown error leaves the loop at
  once, with the tallies as they stand; otherwise the result is recorded and the loop
  sleeps 100 ms.
\<close>

fun ingestItems ::
  "store \<Rightarrow> item list \<Rightarrow> results \<Rightarrow> ingest_event list \<Rightarrow>
     string option \<times> results \<times> ingest_event list" where
  "ingestItems srv [] res tr = (None, res, tr)"
| "ingestItems srv (it # its) res tr =
     (case ingestItem srv it tr of
        (Inl e, tr') \<Rightarrow> (Some e, res, tr')
      | (Inr r, tr') \<Rightarrow> ingestItems srv its (record_result it r res) (tr' @ [Slept 100]))"

text \<open>
  The outer loop of \<open>ingestPosts\<close>: the \<open>try\<close> is inside the loop, so an error thrown
  while a post is transformed or ingested is caught there, counted as one failure under
  the post's id, and the loop goes on with the next post. \<open>total\<close> grows once the
  transformation has returned.
\<close>

fun ingestLoop ::
  "store \<Rightarrow> string option \<Rightarrow> reddit_post list \<Rightarrow> results \<Rightarrow> ingest_event list \<Rightarrow>
     results \<times> ingest_event list" where
  "ingestLoop srv platformName [] res tr = (res, tr)"
| "ingestLoop srv platformName (redditPost # rest) res tr =
     (case transformPostToVectorFormat redditPost platformName of
        Inl e \<Rightarrow>
          ingestLoop srv platformName rest
            (res\<lparr> r_failed := r_failed res + 1,
                  r_errors := r_errors res @
                    [\<lparr> f_id = p_id (fp_post redditPost), f_error = e, f_details = None \<rparr>] \<rparr>)
            tr
      | Inr items \<Rightarrow>
          (let res1 = res\<lparr> r_total := r_total res + length items \<rparr>
           in case ingestItems srv items res1 tr of
                (None, res2, tr') \<Rightarrow> ingestLoop srv platformName rest res2 tr'
              | (Some e, res2, tr') \<Rightarrow>
                  ingestLoop srv platformName rest
                    (res2\<lparr> r_failed := r_failed res2 + 1,
                           r_errors := r_errors res2 @
                             [\<lparr> f_id = p_id (fp_post redditPost), f_error = e,
                                f_details = None \<rparr>] \<rparr>)
                    tr'))"

definition ingestPosts ::
  "store \<Rightarrow> reddit_post list \<Rightarrow> string option \<Rightarrow> results \<times> ingest_event list" where
  "ingestPosts srv redditPosts platformName =
     ingestLoop srv platformName redditPosts
       \<lparr> r_total = 0, r_successful = 0, r_failed = 0, r_posts = 0, r_comments = 0,
         r_errors = [] \<rparr> []"

text \<open>The documents that reached the store, in order, retries included.\<close>

fun posted :: "ingest_event list \<Rightarrow> item list" where
  "posted [] = []"
| "posted (Posted it # evs) = it # posted evs"
| "posted (Slept ms # evs) = posted evs"


section \<open>The Reddit client (src/reddit/client.js)\<close>

text \<open>
  The second argument of \<open>setTimeout\<close>: a number of milliseconds, or the string of a
  response header passed on as it is.
\<close>

datatype delay = Ms nat | HeaderValue string

text \<open>
  What the client does, in order: entering \<open>ensureAuthenticated\<close>, \<open>waitForRateLimit\<close>
  and \<open>authenticate\<close>, the token request, a GET with its URL and bearer token, and a
  timer awaited.
\<close>

datatype client_event =
    EnsureAuthenticated
  | WaitForRateLimit
  | AuthenticateCall
  | TokenRequest
  | HttpGet string "string option"
  | SetTimeout delay

text \<open>
  What one \<open>axios.get\<close> comes back with: the body of a 2xx answer; an error answer with
  its status, its \<open>retry-after\<close> header if any and the error message; or an error with no
  response.
\<close>

datatype get_response =
    GetOk string
  | GetError nat "string option" string
  | GetNoResponse string

text \<open>
  The client's environment. Each answer may depend on every event before it:
  \<open>env_now\<close> is \<open>Date.now()\<close>, \<open>env_token\<close> the answer of the token endpoint
  (\<open>Inl\<close> the error message, \<open>Inr\<close> the \<open>access_token\<close> and \<open>expires_in\<close>), \<open>env_get\<close>
  the answer to a GET.
\<close>

text \<open>What \<open>makeRequest\<close> throws.\<close>

datatype request_error =
    AuthenticationFailed string
  | Rethrown string
  | MaxRetriesExceeded nat string

record client_env =
  env_now :: "client_event list \<Rightarrow> int"
  env_token :: "client_event list \<Rightarrow> string + (string \<times> int)"
  env_get :: "client_event list \<Rightarrow> string \<Rightarrow> string option \<Rightarrow> get_response"

record client =
  accessToken :: "string option"
  tokenExpiry :: int
  lastRequestTime :: int

definition minRequestInterval :: int where
  "minRequestInterval = 1000"

definition authenticate ::
  "client_env \<Rightarrow> client \<Rightarrow> client_event list \<Rightarrow>
     (request_error + unit) \<times> client \<times> client_event list"
  where
  "authenticate env cl tr =
     (let tr1 = tr @ [AuthenticateCall, TokenRequest]
      in case env_token env tr of
           Inl msg \<Rightarrow> (Inl (AuthenticationFailed msg), cl, tr1)
         | Inr (tok, expires_in) \<Rightarrow>
             (Inr (),
              cl\<lparr> accessToken := Some tok,
                  tokenExpiry := env_now env tr1 + (expires_in - 300) * 1000 \<rparr>,
              tr1))"

definition ensureAuthenticated ::
  "client_env \<Rightarrow> client \<Rightarrow> client_event list \<Rightarrow>
     (request_error + unit) \<times> client \<times> client_event list"
  where
  "ensureAuthenticated env cl tr =
     (let tr1 = tr @ [EnsureAuthenticated]
      in if \<not> truthy (accessToken cl) \<or> env_now env tr1 \<ge> tokenExpiry cl
         then authenticate env cl tr1
         else (Inr (), cl, tr1))"

definition waitForRateLimit ::
  "client_env \<Rightarrow> client \<Rightarrow> client_event list \<Rightarrow> client \<times> client_event list" where
  "waitForRateLimit env cl tr =
     (let tr1 = tr @ [WaitForRateLimit];
          timeSinceLastRequest = env_now env tr1 - lastRequestTime cl;
          tr2 = (if timeSinceLastRequest < minRequestInterval
                 then tr1 @ [SetTimeout (Ms (nat (minRequestInterval - timeSinceLastRequest)))]
                 else tr1)
      in (cl\<lparr> lastRequestTime := env_now env tr2 \<rparr>, tr2))"

text \<open>
  The \<open>for\<close> loop of \<open>makeRequest\<close>, from the attempt given. On 429 the timer gets the
  \<open>retry-after\<close> header's own value when that is truthy, else \<open>2^attempt * 1000\<close>; on 401
  the loop calls \<open>authenticate\<close>; on 5xx it backs off; anything else is rethrown.
\<close>

function requestAttempts ::
  "client_env \<Rightarrow> string \<Rightarrow> nat \<Rightarrow> nat \<Rightarrow> client \<Rightarrow> client_event list \<Rightarrow>
     (request_error + string) \<times> client \<times> client_event list" where
  "requestAttempts env url retries attempt cl tr =
     (if attempt < retries then
        (let tr1 = tr @ [HttpGet url (accessToken cl)]
         in case env_get env tr url (accessToken cl) of
              GetOk body \<Rightarrow> (Inr body, cl, tr1)
            | GetError status retryAfter msg \<Rightarrow>
                if status = 429 then
                  requestAttempts env url retries (attempt + 1) cl
                    (tr1 @ [SetTimeout (case retryAfter of
                                          Some h \<Rightarrow> if h \<noteq> [] then HeaderValue h
                                                    else Ms (2 ^ attempt * 1000)
                                        | None \<Rightarrow> Ms (2 ^ attempt * 1000))])
                else if status = 401 then
                  (case authenticate env cl tr1 of
                     (Inl e, cl', tr') \<Rightarrow> (Inl e, cl', tr')
                   | (Inr u, cl', tr') \<Rightarrow> requestAttempts env url retries (attempt + 1) cl' tr')
                else if status \<ge> 500 then
                  requestAttempts env url retries (attempt + 1) cl
                    (tr1 @ [SetTimeout (Ms (2 ^ attempt * 1000))])
                else (Inl (Rethrown msg), cl, tr1)
            | GetNoResponse msg \<Rightarrow> (Inl (Rethrown msg), cl, tr1))
      else (Inl (MaxRetriesExceeded retries url), cl, tr))"
  by pat_completeness auto
termination
  by (relation "measure (\<lambda>(env, url, retries, attempt, cl, tr). retries - attempt)") auto

text \<open>
  \<open>makeRequest\<close>: \<open>ensureAuthenticated\<close> and \<open>waitForRateLimit\<close> stand before the loop.
\<close>

definition makeRequest ::
  "client_env \<Rightarrow> string \<Rightarrow> nat \<Rightarrow> client \<Rightarrow> client_event list \<Rightarrow>
     (request_error + string) \<times> client \<times> client_event list" where
  "makeRequest env url retries cl tr =
     (case ensureAuthenticated env cl tr of
        (Inl e, cl1, tr1) \<Rightarrow> (Inl e, cl1, tr1)
      | (Inr u, cl1, tr1) \<Rightarrow>
          (case waitForRateLimit env cl1 tr1 of
             (cl2, tr2) \<Rightarrow> requestAttempts env url retries 0 cl2 tr2))"

text \<open>
  How long a timer runs, in milliseconds. Node multiplies the argument by one, which
  turns a string of decimal digits into its number, and uses 1 when the result is not
  between 1 and \<open>2^31 - 1\<close>. Header values of any other shape are outside this model
  (\<open>None\<close>).
\<close>

definition digit_val :: "char \<Rightarrow> nat option" where
  "digit_val c =
     (let n = (of_char c :: nat) in if 48 \<le> n \<and> n \<le> 57 then Some (n - 48) else None)"

fun decimal :: "nat \<Rightarrow> string \<Rightarrow> nat option" where
  "decimal acc [] = Some acc"
| "decimal acc (c # cs) =
     (case digit_val c of None \<Rightarrow> None | Some d \<Rightarrow> decimal (acc * 10 + d) cs)"

definition clamp_timer :: "nat \<Rightarrow> nat" where
  "clamp_timer n = (if 1 \<le> n \<and> n \<le> 2147483647 then n else 1)"

fun timer_ms :: "delay \<Rightarrow> nat option" where
  "timer_ms (Ms n) = Some (clamp_timer n)"
| "timer_ms (HeaderValue h) =
     (if h = [] then None else map_option clamp_timer (decimal 0 h))"

text \<open>The events after the first GET of a trace, that GET excluded.\<close>

fun is_get :: "client_event \<Rightarrow> bool" where
  "is_get (HttpGet url tok) = True"
| "is_get _ = False"

fun is_guard :: "client_event \<Rightarrow> bool" where
  "is_guard EnsureAuthenticated = True"
| "is_guard WaitForRateLimit = True"
| "is_guard _ = False"

text \<open>
  The shape of a run of attempts: every GET is the last event, or is followed by one
  timer and then the next attempts, or by one entry into \<open>authenticate\<close> with its token
  request and then the next attempts.
\<close>

fun retry_shape :: "client_event list \<Rightarrow> bool" where
  "retry_shape [] = True"
| "retry_shape [HttpGet url tok] = True"
| "retry_shape (HttpGet url tok # SetTimeout d # rest) = retry_shape rest"
| "retry_shape (HttpGet url tok # AuthenticateCall # TokenRequest # rest) = retry_shape rest"
| "retry_shape _ = False"


section \<open>The job manager (src/server/jobManager.js)\<close>

text \<open>
  The four tallies of a channel's \<open>stats\<close> that the manager adds up; the list of errors
  a worker sends along is only handed on to subscribers.
\<close>

record stats =
  s_posts :: nat
  s_comments :: nat
  s_successful :: nat
  s_failed :: nat

datatype channel_error = ErrorMessage string | ExitCode int

record channel_run =
  ch_subreddit :: string
  ch_status :: string
  ch_stats :: "stats option"
  ch_error :: "channel_error option"
  ch_postsCount :: "nat option"

record job_params =
  jp_hours :: "nat option"
  jp_days :: "nat option"
  jp_testMode :: bool

record job =
  j_id :: nat
  j_status :: string
  j_channels :: "channel_run list"
  j_params :: job_params
  j_createdAt :: int
  j_startedAt :: "int option"
  j_completedAt :: "int option"
  j_totalStats :: stats

text \<open>
  The events handed to \<open>notifySubscribers\<close>. A job event carries the summary of the job
  as it is when the event is made.
\<close>

datatype notification =
    JobCreated job
  | JobStarted job
  | JobCompleted job
  | ChannelProgress nat string string "nat option"
  | ChannelCompleted nat string stats
  | ChannelErrorEvent nat string string
  | JobDeleted nat

text \<open>
  The manager: the \<open>jobs\<close> map, the id counter, and the events passed to
  \<open>notifySubscribers\<close> so far, one entry per call (each subscriber's callback gets the
  event once, and an exception of a callback is caught there).
\<close>

record manager =
  m_jobs :: "nat \<rightharpoonup> job"
  m_nextJobId :: nat
  m_emitted :: "notification list"

definition zero_stats :: stats where
  "zero_stats = \<lparr> s_posts = 0, s_comments = 0, s_successful = 0, s_failed = 0 \<rparr>"

text \<open>\<open>createJob\<close>; \<open>channels\<close> are given by their subreddit names, \<open>now\<close> is the clock.\<close>

definition createJob ::
  "manager \<Rightarrow> string list \<Rightarrow> nat option \<Rightarrow> nat option \<Rightarrow> bool \<Rightarrow> int \<Rightarrow> nat \<times> manager" where
  "createJob mgr channels hours days testMode now =
     (let jobId = m_nextJobId mgr;
          jb = \<lparr> j_id = jobId, j_status = ''pending'',
                 j_channels = map (\<lambda>sub. \<lparr> ch_subreddit = sub, ch_status = ''pending'',
                                           ch_stats = None, ch_error = None,
                                           ch_postsCount = None \<rparr>) channels,
                 j_params = \<lparr> jp_hours = hours, jp_days = days, jp_testMode = testMode \<rparr>,
                 j_createdAt = now, j_startedAt = None, j_completedAt = None,
                 j_totalStats = zero_stats \<rparr>
      in (jobId,
          mgr\<lparr> m_jobs := (m_jobs mgr)(jobId \<mapsto> jb), m_nextJobId := jobId + 1,
               m_emitted := m_emitted mgr @ [JobCreated jb] \<rparr>))"






datatype manager_error = JobNotFound nat | CannotDeleteRunning | WorkerHandlerTypeError


text \<open>\<open>deleteJob\<close>: the result, thrown or returned, and the manager afterwards.\<close>

definition deleteJob :: "manager \<Rightarrow> nat \<Rightarrow> (manager_error + bool) \<times> manager" where
  "deleteJob mgr jobId =
     (case m_jobs mgr jobId of
        None \<Rightarrow> (Inr False, mgr)
      | Some jb \<Rightarrow>
          if j_status jb = ''running'' then (Inl CannotDeleteRunning, mgr)
          else (Inr True,
                mgr\<lparr> m_jobs := (m_jobs mgr)(jobId := None),
                     m_emitted := m_emitted mgr @ [JobDeleted jobId] \<rparr>))"

section \<open>The channel worker (src/workers/channelWorker.js)\<close>



section \<open>Sums of stats\<close>





declare ingestAttempts.simps [simp del]
declare requestAttempts.simps [simp del]
declare fetchLoop.simps [simp del]

section \<open>Reference notions and sample inputs\<close>

text \<open>
  The reply ids as the specification words them: a reply directly under the root keeps
  its own id, a reply nested under another reply gets the root id, an underscore and its
  own id; in depth-first order.
\<close>

fun spec_reply_ids :: "string \<Rightarrow> bool \<Rightarrow> comment list \<Rightarrow> string list" where
  "spec_reply_ids rootItemId nested [] = []"
| "spec_reply_ids rootItemId nested (Comment i a b s t d p q rs # cs) =
     (if nested then rootItemId @ ''_'' @ i else i)
     # spec_reply_ids rootItemId True rs @ spec_reply_ids rootItemId nested cs"

text \<open>An id without an underscore, as Reddit's base-36 ids are.\<close>

definition plain_id :: "string \<Rightarrow> bool" where
  "plain_id i \<longleftrightarrow> CHR ''_'' \<notin> set i"

text \<open>
  The reply ids as the code gives them, in depth-first order: a reply is qualified with
  the root id when it stands below a reply whose id is a non-empty string.
\<close>

fun reply_ids :: "string \<Rightarrow> bool \<Rightarrow> comment list \<Rightarrow> string list" where
  "reply_ids rootItemId qualified [] = []"
| "reply_ids rootItemId qualified (Comment i a b s t d p q rs # cs) =
     (if qualified then rootItemId @ ''_'' @ i else i)
     # reply_ids rootItemId (i \<noteq> []) rs @ reply_ids rootItemId qualified cs"

text \<open>
  Every time of a post and its comments is a valid date once multiplied by 1000.
\<close>

definition dates_valid :: "reddit_post \<Rightarrow> bool" where
  "dates_valid rp \<longleftrightarrow>
     valid_date (p_created_utc (fp_post rp) * 1000)
     \<and> list_all (\<lambda>c. valid_date (c_created_utc c * 1000)) (all_comments (fp_comments rp))"

text \<open>
  The items of a comment list and of a post with no throw on the way: what the two
  transformations return when every date is valid.
\<close>

fun comment_items :: "comment list \<Rightarrow> string \<Rightarrow> string \<Rightarrow> string option \<Rightarrow> item list" where
  "comment_items [] postId subreddit parentCommentId = []"
| "comment_items (Comment i a b s t d p q rs # cs) postId subreddit parentCommentId =
     \<lparr> d_platform = subreddit, d_source = ''Reddit'',
       d_id = (if truthy parentCommentId then postId @ ''_'' @ i else i),
       d_timestamp = t * 1000, d_deeplink = ''https://reddit.com'' @ p,
       d_author = a, d_title = [], d_body = b, d_isComment = True,
       d_comments = None, d_likes = s \<rparr>
     # comment_items rs postId subreddit (Some i)
     @ comment_items cs postId subreddit parentCommentId"

definition post_items :: "reddit_post \<Rightarrow> string option \<Rightarrow> item list" where
  "post_items rp pn =
     \<lparr> d_platform = or_else pn (fp_subreddit rp), d_source = ''Reddit'',
       d_id = p_id (fp_post rp), d_timestamp = p_created_utc (fp_post rp) * 1000,
       d_deeplink = p_url (fp_post rp), d_author = p_author (fp_post rp),
       d_title = p_title (fp_post rp),
       d_body = or_else (Some (p_content (fp_post rp))) (p_title (fp_post rp)),
       d_isComment = False, d_comments = Some (p_num_comments (fp_post rp)),
       d_likes = p_score (fp_post rp) \<rparr>
     # comment_items (fp_comments rp) (p_id (fp_post rp)) (or_else pn (fp_subreddit rp)) None"

definition gone_comment :: raw_comment where
  "gone_comment =
     \<lparr> rc_id = ''c1'', rc_author = ''[deleted]'', rc_body = ''[removed]'', rc_score = 0,
       rc_created_utc = 1700000100, rc_permalink = ''/r/test/comments/p/t/c1'',
       rc_parent_id = ''t3_p'' \<rparr>"

definition live_comment :: raw_comment where
  "live_comment =
     \<lparr> rc_id = ''c2'', rc_author = ''bob'', rc_body = ''still here'', rc_score = 4,
       rc_created_utc = 1700000200, rc_permalink = ''/r/test/comments/p/t/c2'',
       rc_parent_id = ''t1_c1'' \<rparr>"

definition sample_comment :: "string \<Rightarrow> comment list \<Rightarrow> comment" where
  "sample_comment i rs =
     Comment i ''bob'' ''a reply'' 4 1700000200 0 (''/r/test/comments/p/t/'' @ i) ''t3_p'' rs"

definition sample_post :: "string \<Rightarrow> comment list \<Rightarrow> reddit_post" where
  "sample_post i cs =
     \<lparr> fp_id = ''reddit_post_'' @ i, fp_source = ''reddit'', fp_subreddit = ''r/test'',
       fp_post = \<lparr> p_id = i, p_title = ''A title'', p_author = ''ann'', p_content = [],
                   p_url = ''https://reddit.com/r/test/comments/p/t'',
                   p_created_utc = 1700000000, p_score = 1, p_num_comments = int (length cs),
                   p_awards = 0, p_flair = [], p_is_self = False,
                   p_domain = ''example.org'' \<rparr>,
       fp_comments = cs \<rparr>"

definition link_post :: raw_post where
  "link_post =
     \<lparr> rp_id = ''p'', rp_title = ''A title'', rp_author = ''ann'', rp_selftext = Some [],
       rp_permalink = ''/r/test/comments/p/t'', rp_created_utc = 1700000000, rp_score = 1,
       rp_num_comments = 0, rp_awardings = 0, rp_link_flair_text = None, rp_is_self = False,
       rp_domain = ''example.org'' \<rparr>"

text \<open>A store that rejects every request's credentials.\<close>

definition always_401 :: store where
  "always_401 tr it = StoreError 401 ''Request failed with status code 401'' []"

text \<open>
  A Reddit that answers the first GET as given and every later one with success; the
  clock stands at 5000 and the token endpoint always grants a token.
\<close>

definition retry_env :: "get_response \<Rightarrow> client_env" where
  "retry_env first =
     \<lparr> env_now = (\<lambda>tr. 5000),
       env_token = (\<lambda>tr. Inr (''tok'', 3600)),
       env_get = (\<lambda>tr url tok. if list_ex is_get tr then GetOk ''{}'' else first) \<rparr>"

text \<open>The same Reddit with a token endpoint that refuses the credentials.\<close>

definition no_token_env :: client_env where
  "no_token_env =
     (retry_env (GetError 500 None ''Server Error''))
       \<lparr> env_token := (\<lambda>tr. Inl ''Request failed with status code 401'') \<rparr>"

definition fresh_client :: client where
  "fresh_client = \<lparr> accessToken = None, tokenExpiry = 0, lastRequestTime = 0 \<rparr>"

text \<open>
  Every event of \<open>evs\<close> is the comments request of a page child that stands before the
  page's first post older than the cutoff.
\<close>

definition only_earlier_comments :: "int \<Rightarrow> feed_item list \<Rightarrow> fetch_event list \<Rightarrow> bool" where
  "only_earlier_comments cutoffTime items evs \<longleftrightarrow>
     list_all (\<lambda>e. list_ex (\<lambda>q. e = CommentsRequest (item_id q))
                      (takeWhile (\<lambda>it. \<not> is_old cutoffTime it) items)) evs"

text \<open>
  Two statements about the calls made so far: no page requested so far held a post older
  than the cutoff; and after a page request whose page held one, only comments requests
  for earlier children of that page follow.
\<close>

definition no_old_page :: "reddit_api \<Rightarrow> int \<Rightarrow> fetch_event list \<Rightarrow> bool" where
  "no_old_page api T tr \<longleftrightarrow>
     (\<forall>pre cur suf pg. tr = pre @ PageRequest cur # suf \<and> api_fetchNewPosts api pre cur = Inr pg
        \<longrightarrow> \<not> list_ex (is_old T) (pg_children pg))"

definition stops_after_old :: "reddit_api \<Rightarrow> int \<Rightarrow> fetch_event list \<Rightarrow> bool" where
  "stops_after_old api T tr \<longleftrightarrow>
     (\<forall>pre cur suf pg. tr = pre @ PageRequest cur # suf \<and> api_fetchNewPosts api pre cur = Inr pg
        \<and> list_ex (is_old T) (pg_children pg)
        \<longrightarrow> only_earlier_comments T (pg_children pg) suf)"

text \<open>
  A feed whose every page holds a post from time 200, one from time 50 and one from time
  300, with a continuation token; comments requests answer with an empty array.
\<close>

definition sample_page :: page where
  "sample_page =
     \<lparr> pg_children = [T3 (link_post\<lparr> rp_id := ''new'', rp_created_utc := 200 \<rparr>),
                       T3 (link_post\<lparr> rp_id := ''old'', rp_created_utc := 50 \<rparr>),
                       T3 (link_post\<lparr> rp_id := ''late'', rp_created_utc := 300 \<rparr>)],
       pg_after = Some ''t3_late'' \<rparr>"

definition sample_api :: reddit_api where
  "sample_api =
     \<lparr> api_authenticate = (\<lambda>tr. None),
       api_fetchNewPosts = (\<lambda>tr after. Inr sample_page),
       api_fetchPostComments = (\<lambda>tr i. Inr []) \<rparr>"

definition empty_manager :: manager where
  "empty_manager = \<lparr> m_jobs = Map.empty, m_nextJobId = 1, m_emitted = [] \<rparr>"

text \<open>A manager holding job 1, pending, over two channels.\<close>

definition one_job :: manager where
  "one_job = snd (createJob empty_manager [''r/a'', ''r/b''] (Some 24) None False 1700000000)"

text \<open>The same manager while job 1 runs.\<close>

definition running_job :: manager where
  "running_job =
     one_job\<lparr> m_jobs := (m_jobs one_job)(1 \<mapsto> (the (m_jobs one_job 1))\<lparr> j_status := ''running'' \<rparr>) \<rparr>"








section \<open>Properties\<close>

subsection \<open>Comment trees\<close>

lemma flattenChildren_append:
  "flattenChildren (xs @ ys) d = flattenChildren xs d @ flattenChildren ys d"
proof (induction xs)
  case Nil
  show ?case by simp
next
  case (Cons x xs)
  then show ?case by (cases x) simp_all
qed

lemma flattenComments_Falsy_guard:
  "(if reps \<noteq> Falsy then flattenComments reps d else []) = flattenComments reps d"
  by (cases reps) simp_all

lemma flatten_no_deleted:
  "\<forall>x \<in> set (all_comments (flattenComments t d)). \<not> marked_deleted x"
  "\<forall>x \<in> set (all_comments (flattenChildren ts d)). \<not> marked_deleted x"
  by (induction t d and ts d rule: flattenComments_flattenChildren.induct)
     (auto simp: is_deleted_def marked_deleted_def)

text \<open>
  C1, as the code has it. A comment marked deleted or removed is skipped together with
  everything below it: the result is that of the same sibling list without the node. A
  comment not so marked is emitted in place, with the flattening of its own replies one
  level deeper. No comment of the result, at any depth, carries a deleted mark.
\<close>

theorem flattenComments_skips_deleted_subtree:
  "(is_deleted c \<longrightarrow>
      flattenChildren (pre @ T1 c reps # post) depth = flattenChildren (pre @ post) depth)
   \<and> (\<not> is_deleted c \<longrightarrow>
      flattenChildren (pre @ T1 c reps # post) depth =
        flattenChildren pre depth
        @ [Comment (rc_id c) (rc_author c) (rc_body c) (rc_score c) (rc_created_utc c)
             depth (rc_permalink c) (rc_parent_id c) (flattenComments reps (depth + 1))]
        @ flattenChildren post depth)
   \<and> (\<forall>x \<in> set (all_comments (flattenComments t depth)). \<not> marked_deleted x)"
  using flatten_no_deleted(1)[of t depth]
  by (simp add: flattenChildren_append flattenComments_Falsy_guard del: flattenComments.simps)

theorem flattenComments_skips_deleted_subtree_witness:
  "is_deleted gone_comment
   \<and> flattenChildren ([More 3] @ T1 gone_comment (Listing [T1 live_comment Falsy]) # []) 0 = []
   \<and> \<not> is_deleted live_comment
   \<and> flattenChildren ([More 3] @ T1 live_comment Falsy # []) 0 =
       [Comment ''c2'' ''bob'' ''still here'' 4 1700000200 0 ''/r/test/comments/p/t/c2''
          ''t1_c1'' []]
   \<and> list_all (\<lambda>x. \<not> marked_deleted x)
         (all_comments (flattenComments (Listing [T1 live_comment Falsy]) 0))"
  using flattenComments_skips_deleted_subtree
          [of gone_comment "[More 3]" "Listing [T1 live_comment Falsy]" "[]" 0
              "Listing [T1 live_comment Falsy]"]
        flattenComments_skips_deleted_subtree
          [of live_comment "[More 3]" Falsy "[]" 0 "Listing [T1 live_comment Falsy]"]
  by (simp add: is_deleted_def gone_comment_def live_comment_def marked_deleted_def)

text \<open>
  C1 as stated fails: a live reply under a deleted comment is not emitted.
\<close>

theorem flattenComments_deleted_children_counterexample:
  "is_deleted gone_comment \<and> \<not> is_deleted live_comment
   \<and> flattenComments (Listing [T1 gone_comment (Listing [T1 live_comment Falsy])]) 0 = []"
  by (simp add: is_deleted_def gone_comment_def live_comment_def)

subsection \<open>Documents of a post\<close>

lemma transformComments_eq:
  "transformCommentsToVectorFormat cs postId sub par =
     (if list_all (\<lambda>c. valid_date (c_created_utc c * 1000)) (all_comments cs)
      then Inr (comment_items cs postId sub par) else Inl ''Invalid time value'')"
  by (induction cs postId sub par rule: transformCommentsToVectorFormat.induct) auto

lemma transformPost_eq:
  "transformPostToVectorFormat rp pn =
     (if dates_valid rp then Inr (post_items rp pn) else Inl ''Invalid time value'')"
  by (cases "fp_comments rp")
     (auto simp: transformPostToVectorFormat_def Let_def dates_valid_def post_items_def
        transformComments_eq)

lemma length_comment_items:
  "length (comment_items cs postId sub par) = countComments cs"
  by (induction cs postId sub par rule: comment_items.induct) auto

lemma isComment_comment_items:
  "\<forall>x \<in> set (comment_items cs postId sub par). d_isComment x"
  by (induction cs postId sub par rule: comment_items.induct) auto

lemma order_comment_items:
  "map (\<lambda>x. (d_author x, d_body x, d_likes x, d_timestamp x)) (comment_items cs postId sub par) =
   map (\<lambda>c. (c_author c, c_body c, c_score c, c_created_utc c * 1000)) (all_comments cs)"
  by (induction cs postId sub par rule: comment_items.induct) auto

lemma ids_comment_items:
  "map d_id (comment_items cs postId sub par) = reply_ids postId (truthy par) cs"
  by (induction cs postId sub par rule: comment_items.induct) auto

lemma reply_ids_spec:
  "\<forall>c \<in> set (all_comments cs). c_replies c \<noteq> [] \<longrightarrow> c_id c \<noteq> [] \<Longrightarrow>
   reply_ids r0 nst cs = spec_reply_ids r0 nst cs"
proof (induction r0 nst cs rule: reply_ids.induct)
  case (1 rootItemId qual)
  show ?case by simp
next
  case (2 rootItemId qual i a b s t d p q rs cs)
  show ?case
  proof (cases "rs = []")
    case True
    with 2 show ?thesis by simp
  next
    case False
    with "2.prems" have "i \<noteq> []" by simp
    with 2 show ?thesis by simp
  qed
qed

text \<open>
  C5, as the code has it. When every time of the post and its comments is a valid date,
  the transformation returns one more document than \<open>countComments\<close> of the comment
  tree; the first is the post's, with the post's id and \<open>isComment\<close> false; the others
  are replies, one per comment in depth-first order of the tree (author, body, score and
  time of each document are those of the comment at the same place); a reply's id is
  qualified with the root id and an underscore when it stands below a reply whose id is
  a non-empty string, and is the bare id otherwise, which is the specification's rule
  wherever every comment that has replies has a non-empty id. When some time is no
  valid date, the transformation throws and returns no document.
\<close>

theorem transformPost_documents:
  "(dates_valid rp \<longrightarrow>
      (\<exists>docs. transformPostToVectorFormat rp pn = Inr docs
         \<and> length docs = 1 + countComments (fp_comments rp)
         \<and> d_id (hd docs) = p_id (fp_post rp)
         \<and> \<not> d_isComment (hd docs)
         \<and> (\<forall>x \<in> set (tl docs). d_isComment x)
         \<and> map (\<lambda>x. (d_author x, d_body x, d_likes x, d_timestamp x)) (tl docs) =
             map (\<lambda>c. (c_author c, c_body c, c_score c, c_created_utc c * 1000))
               (all_comments (fp_comments rp))
         \<and> map d_id (tl docs) = reply_ids (p_id (fp_post rp)) False (fp_comments rp)
         \<and> ((\<forall>c \<in> set (all_comments (fp_comments rp)). c_replies c \<noteq> [] \<longrightarrow> c_id c \<noteq> []) \<longrightarrow>
              map d_id (tl docs) = spec_reply_ids (p_id (fp_post rp)) False (fp_comments rp))))
   \<and> (\<not> dates_valid rp \<longrightarrow> transformPostToVectorFormat rp pn = Inl ''Invalid time value'')"
  using isComment_comment_items[of "fp_comments rp"] reply_ids_spec[of "fp_comments rp"]
  by (simp add: transformPost_eq post_items_def length_comment_items order_comment_items
        ids_comment_items)

theorem transformPost_documents_witness:
  "dates_valid (sample_post ''p'' [sample_comment ''c1'' [sample_comment ''c2'' []],
                                   sample_comment ''c3'' []])
   \<and> list_all (\<lambda>c. c_id c \<noteq> []) (all_comments (fp_comments
        (sample_post ''p'' [sample_comment ''c1'' [sample_comment ''c2'' []],
                            sample_comment ''c3'' []])))
   \<and> map_sum id (map d_id) (transformPostToVectorFormat
        (sample_post ''p'' [sample_comment ''c1'' [sample_comment ''c2'' []],
                            sample_comment ''c3'' []]) None)
       = Inr [''p'', ''c1'', ''p_c2'', ''c3'']
   \<and> map_sum id (map d_isComment) (transformPostToVectorFormat
        (sample_post ''p'' [sample_comment ''c1'' [sample_comment ''c2'' []],
                            sample_comment ''c3'' []]) None)
       = Inr [False, True, True, True]
   \<and> spec_reply_ids ''p'' False [sample_comment ''c1'' [sample_comment ''c2'' []],
                                   sample_comment ''c3'' []] = [''c1'', ''p_c2'', ''c3'']
   \<and> \<not> dates_valid ((sample_post ''p'' [sample_comment ''c1'' []])
                        \<lparr>fp_post := postObj (link_post\<lparr>rp_created_utc := 8640000000001\<rparr>)\<rparr>)
   \<and> transformPostToVectorFormat
        ((sample_post ''p'' [sample_comment ''c1'' []])
           \<lparr>fp_post := postObj (link_post\<lparr>rp_created_utc := 8640000000001\<rparr>)\<rparr>) None
       = Inl ''Invalid time value''"
  using transformPost_documents
          [of "sample_post ''p'' [sample_comment ''c1'' [sample_comment ''c2'' []],
                                  sample_comment ''c3'' []]" None]
        transformPost_documents
          [of "(sample_post ''p'' [sample_comment ''c1'' []])
                 \<lparr>fp_post := postObj (link_post\<lparr>rp_created_utc := 8640000000001\<rparr>)\<rparr>" None]
  by (simp add: sample_post_def sample_comment_def transformPostToVectorFormat_def Let_def
        dates_valid_def valid_date_def postObj_def link_post_def)

text \<open>
  C5 as stated fails twice. Below a reply whose id is the empty string a nested reply
  keeps its bare id \<open>x\<close>, where the specification's rule gives \<open>p_x\<close>. And a post whose
  time is beyond the range of dates yields no document at all, where the claim counts
  one.
\<close>

theorem transformPost_documents_counterexample:
  "map_sum id (map d_id) (transformPostToVectorFormat
      (sample_post ''p'' [sample_comment [] [sample_comment ''x'' []]]) None)
     = Inr [''p'', [], ''x'']
   \<and> spec_reply_ids ''p'' False [sample_comment [] [sample_comment ''x'' []]] = [[], ''p_x'']
   \<and> transformPostToVectorFormat
        ((sample_post ''p'' [])\<lparr>fp_post := postObj (link_post\<lparr>rp_created_utc := 8640000000001\<rparr>)\<rparr>)
        None
       = Inl ''Invalid time value''
   \<and> 1 + countComments (fp_comments ((sample_post ''p'' [])
        \<lparr>fp_post := postObj (link_post\<lparr>rp_created_utc := 8640000000001\<rparr>)\<rparr>)) = 1"
  by (simp add: sample_post_def sample_comment_def transformPostToVectorFormat_def Let_def
        valid_date_def postObj_def link_post_def)

text \<open>
  C9, as the code has it. Whenever the transformation of a fetched post returns, its
  first document's body is the post's \<open>selftext\<close> when that is a non-empty string and the
  title otherwise; so a post without selftext gets its title as body, and the body is
  empty exactly when there is no selftext and the title is empty. The transformation
  returns when every time of the post and its comments is a valid date, and throws
  otherwise, yielding no document.
\<close>

theorem root_body_selftext_or_title:
  "(transformPostToVectorFormat (fp\<lparr>fp_post := postObj rp\<rparr>) pn = Inr docs \<longrightarrow>
      docs \<noteq> []
      \<and> d_body (hd docs) =
          (case rp_selftext rp of
             Some s \<Rightarrow> if s \<noteq> [] then s else rp_title rp
           | None \<Rightarrow> rp_title rp)
      \<and> (\<not> truthy (rp_selftext rp) \<longrightarrow> d_body (hd docs) = rp_title rp)
      \<and> (d_body (hd docs) = [] \<longleftrightarrow> \<not> truthy (rp_selftext rp) \<and> rp_title rp = []))
   \<and> (dates_valid (fp\<lparr>fp_post := postObj rp\<rparr>) \<longrightarrow>
        (\<exists>ds. transformPostToVectorFormat (fp\<lparr>fp_post := postObj rp\<rparr>) pn = Inr ds))
   \<and> (\<not> dates_valid (fp\<lparr>fp_post := postObj rp\<rparr>) \<longrightarrow>
        transformPostToVectorFormat (fp\<lparr>fp_post := postObj rp\<rparr>) pn = Inl ''Invalid time value'')"
  by (cases "rp_selftext rp")
     (auto simp: transformPost_eq post_items_def postObj_def split: if_splits)

theorem root_body_selftext_or_title_witness:
  "\<not> truthy (rp_selftext link_post) \<and> dates_valid ((sample_post ''p'' [])\<lparr>fp_post := postObj link_post\<rparr>)
   \<and> map_sum id (map d_body) (transformPostToVectorFormat
        ((sample_post ''p'' [])\<lparr>fp_post := postObj link_post\<rparr>) None) = Inr [''A title'']
   \<and> map_sum id (map d_body) (transformPostToVectorFormat
        ((sample_post ''p'' [])\<lparr>fp_post := postObj (link_post\<lparr>rp_selftext := Some ''text''\<rparr>)\<rparr>)
        None) = Inr [''text'']
   \<and> \<not> dates_valid ((sample_post ''p'' [])
          \<lparr>fp_post := postObj (link_post\<lparr>rp_created_utc := 8640000000001\<rparr>)\<rparr>)
   \<and> transformPostToVectorFormat
        ((sample_post ''p'' [])\<lparr>fp_post := postObj (link_post\<lparr>rp_created_utc := 8640000000001\<rparr>)\<rparr>)
        None
       = Inl ''Invalid time value''"
  using root_body_selftext_or_title
          [where fp = "sample_post ''p'' []" and rp = link_post and pn = None
             and docs = "projr (transformPostToVectorFormat
                           ((sample_post ''p'' [])\<lparr>fp_post := postObj link_post\<rparr>) None)"]
        root_body_selftext_or_title
          [where fp = "sample_post ''p'' []"
             and rp = "link_post\<lparr>rp_selftext := Some ''text''\<rparr>" and pn = None
             and docs = "projr (transformPostToVectorFormat
                           ((sample_post ''p'' [])
                              \<lparr>fp_post := postObj (link_post\<lparr>rp_selftext := Some ''text''\<rparr>)\<rparr>) None)"]
        root_body_selftext_or_title
          [where fp = "sample_post ''p'' []"
             and rp = "link_post\<lparr>rp_created_utc := 8640000000001\<rparr>" and pn = None]
  by (simp add: link_post_def sample_post_def transformPostToVectorFormat_def Let_def
        dates_valid_def valid_date_def postObj_def)

text \<open>
  C9 as stated fails twice. A post without selftext whose title is the empty string
  gets the empty body. And a post whose time is beyond the range of dates yields no
  root document at all.
\<close>

theorem root_body_counterexample:
  "map_sum id (map d_body) (transformPostToVectorFormat
      ((sample_post ''p'' [])\<lparr>fp_post := postObj (link_post\<lparr>rp_title := []\<rparr>)\<rparr>) None)
     = Inr [[]]
   \<and> transformPostToVectorFormat
        ((sample_post ''p'' [])\<lparr>fp_post := postObj (link_post\<lparr>rp_created_utc := 8640000000001\<rparr>)\<rparr>)
        None
       = Inl ''Invalid time value''"
  by (simp add: link_post_def sample_post_def transformPostToVectorFormat_def Let_def
        valid_date_def postObj_def)

lemma doc_id_cases:
  "x \<in> set (comment_items cs postId sub par) \<Longrightarrow>
   \<exists>c \<in> set (all_comments cs). d_id x = c_id c \<or> d_id x = postId @ ''_'' @ c_id c"
proof (induction cs postId sub par rule: comment_items.induct)
  case (1 postId subreddit parentCommentId)
  then show ?case by simp
next
  case (2 i a b s t d p q rs cs postId subreddit parentCommentId)
  let ?me = "Comment i a b s t d p q rs"
  from "2.prems" consider
      (here) "d_id x = i \<or> d_id x = postId @ ''_'' @ i"
    | (below) "x \<in> set (comment_items rs postId subreddit (Some i))"
    | (right) "x \<in> set (comment_items cs postId subreddit parentCommentId)"
    by (auto split: if_splits)
  then show ?case
  proof cases
    case here
    then show ?thesis by auto
  next
    case below
    with "2.IH"(1) obtain c where "c \<in> set (all_comments rs)"
      "d_id x = c_id c \<or> d_id x = postId @ ''_'' @ c_id c" by blast
    then show ?thesis by auto
  next
    case right
    with "2.IH"(2) obtain c where "c \<in> set (all_comments cs)"
      "d_id x = c_id c \<or> d_id x = postId @ ''_'' @ c_id c" by blast
    then show ?thesis by auto
  qed
qed

lemma qualified_not_plain: "\<not> plain_id (postId @ ''_'' @ i)"
  by (simp add: plain_id_def)

lemma doc_id_clash:
  assumes x: "d_id x = c_id c \<or> d_id x = postId @ ''_'' @ c_id c"
    and y: "d_id y = c_id c' \<or> d_id y = postId @ ''_'' @ c_id c'"
    and eq: "d_id x = d_id y"
    and pl: "plain_id (c_id c)" "plain_id (c_id c')"
  shows "c_id c = c_id c'"
  using assms qualified_not_plain[of postId "c_id c"] qualified_not_plain[of postId "c_id c'"]
  by auto

lemma distinct_comment_items:
  "distinct (map c_id (all_comments cs)) \<Longrightarrow>
   \<forall>c \<in> set (all_comments cs). plain_id (c_id c) \<Longrightarrow>
   distinct (map d_id (comment_items cs postId sub par))"
proof (induction cs postId sub par rule: comment_items.induct)
  case (1 postId subreddit parentCommentId)
  then show ?case by simp
next
  case (2 i a b s t d p q rs cs postId subreddit parentCommentId)
  let ?R = "comment_items rs postId subreddit (Some i)"
  let ?C = "comment_items cs postId subreddit parentCommentId"
  let ?h = "if truthy parentCommentId then postId @ ''_'' @ i else i"
  from "2.prems" have dr: "distinct (map c_id (all_comments rs))"
    and dc: "distinct (map c_id (all_comments cs))"
    and disj: "c_id ` set (all_comments rs) \<inter> c_id ` set (all_comments cs) = {}"
    and ir: "i \<notin> c_id ` set (all_comments rs)" and ic: "i \<notin> c_id ` set (all_comments cs)"
    and pr: "\<forall>c \<in> set (all_comments rs). plain_id (c_id c)"
    and pc: "\<forall>c \<in> set (all_comments cs). plain_id (c_id c)"
    and pi: "plain_id i"
    by auto
  have R: "distinct (map d_id ?R)"
    using "2.IH"(1) dr pr by simp
  have C: "distinct (map d_id ?C)" using "2.IH"(2) dc pc by simp
  have RC: "d_id x \<noteq> d_id y" if "x \<in> set ?R" "y \<in> set ?C" for x y
  proof
    assume eq: "d_id x = d_id y"
    from that(1) obtain c where c: "c \<in> set (all_comments rs)"
      "d_id x = c_id c \<or> d_id x = postId @ ''_'' @ c_id c" using doc_id_cases by blast
    from that(2) obtain c' where c': "c' \<in> set (all_comments cs)"
      "d_id y = c_id c' \<or> d_id y = postId @ ''_'' @ c_id c'" using doc_id_cases by blast
    have "c_id c = c_id c'"
      using doc_id_clash[OF c(2) c'(2) eq] pr pc c(1) c'(1) by blast
    with c(1) c'(1) disj show False by blast
  qed
  have H: "d_id y \<noteq> ?h" if "y \<in> set ?R \<or> y \<in> set ?C" for y
  proof
    assume eq: "d_id y = ?h"
    from that obtain c' where c': "c' \<in> set (all_comments rs) \<or> c' \<in> set (all_comments cs)"
      "d_id y = c_id c' \<or> d_id y = postId @ ''_'' @ c_id c'" using doc_id_cases by blast
    have pl: "plain_id (c_id c')" using c'(1) pr pc by blast
    have "c_id c' = i"
      using c'(2) eq pl pi qualified_not_plain[of postId "c_id c'"] qualified_not_plain[of postId i]
      by (auto split: if_splits)
    with c'(1) ir ic show False by blast
  qed
  have HR: "?h \<notin> d_id ` set ?R"
  proof
    assume "?h \<in> d_id ` set ?R"
    then obtain y where "y \<in> set ?R" "d_id y = ?h" by (metis imageE)
    with H[of y] show False by simp
  qed
  have HC: "?h \<notin> d_id ` set ?C"
  proof
    assume "?h \<in> d_id ` set ?C"
    then obtain y where "y \<in> set ?C" "d_id y = ?h" by (metis imageE)
    with H[of y] show False by simp
  qed
  have RCs: "d_id ` set ?R \<inter> d_id ` set ?C = {}"
  proof (rule ccontr)
    assume "d_id ` set ?R \<inter> d_id ` set ?C \<noteq> {}"
    then obtain v where "v \<in> d_id ` set ?R" "v \<in> d_id ` set ?C" by blast
    then obtain x y where "x \<in> set ?R" "y \<in> set ?C" "d_id x = v" "d_id y = v"
      by (metis imageE)
    with RC[of x y] show False by simp
  qed
  show ?case using R C RCs HR HC by simp
qed

text \<open>
  C6, as the code has it. When the ids of the post and of all its comments are pairwise
  distinct and no comment id contains an underscore, the ids of the documents the
  transformation returns are pairwise distinct. The ids are a function of the tree: equal
  trees give equal id sequences.
\<close>

theorem transformPost_ids_distinct:
  "(transformPostToVectorFormat rp pn = Inr docs
    \<and> distinct (p_id (fp_post rp) # map c_id (all_comments (fp_comments rp)))
    \<and> (\<forall>c \<in> set (all_comments (fp_comments rp)). plain_id (c_id c))
    \<longrightarrow> distinct (map d_id docs))
   \<and> (rp' = rp \<longrightarrow> map_sum id (map d_id) (transformPostToVectorFormat rp' pn) =
                      map_sum id (map d_id) (transformPostToVectorFormat rp pn))"
proof -
  let ?po = "fp_post rp" and ?cs = "fp_comments rp"
  let ?C = "comment_items ?cs (p_id ?po) (or_else pn (fp_subreddit rp)) None"
  { assume r: "transformPostToVectorFormat rp pn = Inr docs"
      and d: "distinct (p_id ?po # map c_id (all_comments ?cs))"
      and p: "\<forall>c \<in> set (all_comments ?cs). plain_id (c_id c)"
    from r have docs: "docs = post_items rp pn"
      by (simp add: transformPost_eq split: if_splits)
    have "d_id y \<noteq> p_id ?po" if "y \<in> set ?C" for y
    proof
      assume eq: "d_id y = p_id ?po"
      from that obtain c where c: "c \<in> set (all_comments ?cs)"
        "d_id y = c_id c \<or> d_id y = p_id ?po @ ''_'' @ c_id c" using doc_id_cases by blast
      with eq d show False by auto
    qed
    then have "p_id ?po \<notin> d_id ` set ?C" by (metis imageE)
    moreover have "distinct (map d_id ?C)"
      using d p by (simp add: distinct_comment_items)
    ultimately have "distinct (map d_id docs)"
      by (simp add: docs post_items_def) }
  then show ?thesis by blast
qed

theorem transformPost_ids_distinct_witness:
  "map_sum id (map d_id) (transformPostToVectorFormat
        (sample_post ''p'' [sample_comment ''c1'' [sample_comment ''c2'' []],
                            sample_comment ''c3'' []]) None)
     = Inr [''p'', ''c1'', ''p_c2'', ''c3'']
   \<and> distinct (p_id (fp_post (sample_post ''p'' [sample_comment ''c1'' [sample_comment ''c2'' []],
                                                sample_comment ''c3'' []]))
       # map c_id (all_comments (fp_comments
           (sample_post ''p'' [sample_comment ''c1'' [sample_comment ''c2'' []],
                               sample_comment ''c3'' []]))))
   \<and> list_all (\<lambda>c. plain_id (c_id c)) (all_comments (fp_comments
           (sample_post ''p'' [sample_comment ''c1'' [sample_comment ''c2'' []],
                               sample_comment ''c3'' []])))
   \<and> distinct (map d_id (projr (transformPostToVectorFormat
        (sample_post ''p'' [sample_comment ''c1'' [sample_comment ''c2'' []],
                            sample_comment ''c3'' []]) None)))"
  using transformPost_ids_distinct
          [where rp = "sample_post ''p'' [sample_comment ''c1'' [sample_comment ''c2'' []],
                                  sample_comment ''c3'' []]" and pn = None
             and docs = "projr (transformPostToVectorFormat
                          (sample_post ''p'' [sample_comment ''c1'' [sample_comment ''c2'' []],
                                              sample_comment ''c3'' []]) None)"
             and rp' = "sample_post ''p'' [sample_comment ''c1'' [sample_comment ''c2'' []],
                                  sample_comment ''c3'' []]"]
  by (simp add: sample_post_def sample_comment_def plain_id_def transformPostToVectorFormat_def
        Let_def valid_date_def)

text \<open>
  C6 as stated fails: with the pairwise distinct ids \<open>p\<close> (the post), \<open>p_x\<close> (a reply
  under the post) and \<open>x\<close> (a reply under that reply), two documents get the id \<open>p_x\<close>.
\<close>

theorem transformPost_ids_counterexample:
  "distinct (p_id (fp_post (sample_post ''p'' [sample_comment ''p_x'' [sample_comment ''x'' []]]))
       # map c_id (all_comments (fp_comments
           (sample_post ''p'' [sample_comment ''p_x'' [sample_comment ''x'' []]]))))
   \<and> map_sum id (map d_id) (transformPostToVectorFormat
        (sample_post ''p'' [sample_comment ''p_x'' [sample_comment ''x'' []]]) None)
       = Inr [''p'', ''p_x'', ''p_x'']"
  by (simp add: sample_post_def sample_comment_def transformPostToVectorFormat_def Let_def
        valid_date_def)

subsection \<open>Ingestion\<close>

lemma ingestItems_append:
  "ingestItems srv (pre @ its) res tr =
     (case ingestItems srv pre res tr of
        (None, res', tr') \<Rightarrow> ingestItems srv its res' tr'
      | (Some e, res', tr') \<Rightarrow> (Some e, res', tr'))"
  by (induction pre arbitrary: res tr) (auto split: prod.splits sum.splits option.splits)

lemma ingestAttempts_throw_only_on_auth:
  "ingestAttempts srv it attempt tr = (Inl e, tr') \<Longrightarrow>
   \<exists>tr0 status msg body. tr' = tr0 @ [Posted it] \<and> srv tr0 it = StoreError status msg body
      \<and> (status = 401 \<or> status = 403)"
proof (induction srv it attempt tr rule: ingestAttempts.induct)
  case (1 srv it attempt tr)
  show ?case
  proof (cases "attempt < maxRetries")
    case False
    with "1.prems" show ?thesis by (simp add: ingestAttempts.simps[of srv it attempt tr])
  next
    case True
    show ?thesis
    proof (cases "srv tr it")
      case (StoreOk b c)
      with True "1.prems" show ?thesis by (simp add: ingestAttempts.simps[of srv it attempt tr])
    next
      case (NoResponse m)
      with True "1.prems" show ?thesis by (simp add: ingestAttempts.simps[of srv it attempt tr])
    next
      case (StoreError status msg body)
      show ?thesis
      proof (cases "status = 401 \<or> status = 403")
        case auth: True
        with True StoreError "1.prems" have "tr' = tr @ [Posted it]"
          by (auto simp add: ingestAttempts.simps[of srv it attempt tr])
        with StoreError auth show ?thesis by blast
      next
        case noauth: False
        show ?thesis
        proof (cases "status = 422")
          case True
          with \<open>attempt < maxRetries\<close> StoreError noauth "1.prems" show ?thesis
            by (simp add: ingestAttempts.simps[of srv it attempt tr])
        next
          case n422: False
          show ?thesis
          proof (cases "status = 429 \<or> status \<ge> 500")
            case True
            with \<open>attempt < maxRetries\<close> StoreError noauth n422 "1.prems"
            have "ingestAttempts srv it (attempt + 1) (tr @ [Posted it, Slept (2 ^ attempt * 1000)])
                    = (Inl e, tr')"
              by (simp add: ingestAttempts.simps[of srv it attempt tr])
            with "1.IH"[OF \<open>attempt < maxRetries\<close> StoreError _ n422 True] noauth
            show ?thesis by simp
          next
            case False
            with \<open>attempt < maxRetries\<close> StoreError noauth n422 "1.prems" show ?thesis
              by (simp add: ingestAttempts.simps[of srv it attempt tr])
          qed
        qed
      qed
    qed
  qed
qed

lemma posted_append: "posted (xs @ ys) = posted xs @ posted ys"
  by (induction xs rule: posted.induct) simp_all

lemma ingestAttempts_posts_only_its_item:
  "\<exists>k. posted (snd (ingestAttempts srv it attempt tr)) = posted tr @ replicate k it"
proof (induction srv it attempt tr rule: ingestAttempts.induct)
  case (1 srv it attempt tr)
  have none: "posted tr = posted tr @ replicate 0 it" by simp
  show ?case
  proof (cases "attempt < maxRetries")
    case False
    then show ?thesis using none
      by (simp add: ingestAttempts.simps[of srv it attempt tr])
  next
    case lt: True
    show ?thesis
    proof (cases "srv tr it")
      case (StoreOk b c)
      with lt show ?thesis
        by (auto simp: ingestAttempts.simps[of srv it attempt tr] posted_append
              intro: exI[of _ "Suc 0"])
    next
      case (NoResponse m)
      with lt show ?thesis
        by (auto simp: ingestAttempts.simps[of srv it attempt tr] posted_append
              intro: exI[of _ "Suc 0"])
    next
      case (StoreError status msg body)
      show ?thesis
      proof (cases "\<not> (status = 401 \<or> status = 403) \<and> status \<noteq> 422
                      \<and> (status = 429 \<or> status \<ge> 500)")
        case True
        then have na: "\<not> (status = 401 \<or> status = 403)" and nv: "status \<noteq> 422"
          and re: "status = 429 \<or> status \<ge> 500" by auto
        from "1.IH"[OF lt StoreError na nv re]
        obtain k where "posted (snd (ingestAttempts srv it (attempt + 1)
                          (tr @ [Posted it, Slept (2 ^ attempt * 1000)])))
                        = posted (tr @ [Posted it, Slept (2 ^ attempt * 1000)]) @ replicate k it"
          by blast
        then have "posted (snd (ingestAttempts srv it attempt tr))
                     = posted tr @ replicate (Suc k) it"
          using lt StoreError na nv re
          by (simp add: ingestAttempts.simps[of srv it attempt tr] posted_append)
        then show ?thesis by blast
      next
        case False
        with lt StoreError show ?thesis
          by (auto simp: ingestAttempts.simps[of srv it attempt tr] posted_append
              intro: exI[of _ "Suc 0"])
      qed
    qed
  qed
qed

text \<open>
  C2, as the code has it. When a document of a post makes \<open>ingestItem\<close> throw (the
  store answered 401 or 403), after the documents before it went through, nothing but
  that document reached the store in the failed call, the documents of the post after it
  are not sent, one failure is recorded under the post's id, and the loop goes on with
  the next post from the trace as it stands after the failed request. \<open>ingestPosts\<close>
  itself returns its tallies and throws nothing.
\<close>

theorem ingestPosts_auth_error_ends_post_only:
  assumes "transformPostToVectorFormat p platformName = Inr (pre @ d # later)"
    and "ingestItems srv pre (res\<lparr> r_total := r_total res + length (pre @ d # later) \<rparr>) tr
           = (None, res', tr')"
    and "ingestItem srv d tr' = (Inl e, tr'')"
  shows "ingestLoop srv platformName (p # rest) res tr =
           ingestLoop srv platformName rest
             (res'\<lparr> r_failed := r_failed res' + 1,
                    r_errors := r_errors res' @
                      [\<lparr> f_id = p_id (fp_post p), f_error = e, f_details = None \<rparr>] \<rparr>) tr''
         \<and> (\<exists>k. posted tr'' = posted tr' @ replicate k d)"
proof -
  from ingestAttempts_posts_only_its_item[of srv d 0 tr'] assms(3)
  have "\<exists>k. posted tr'' = posted tr' @ replicate k d" by (simp add: ingestItem_def)
  with assms show ?thesis by (simp add: ingestItems_append Let_def)
qed

theorem ingestPosts_auth_error_ends_post_only_witness:
  "transformPostToVectorFormat (sample_post ''p1'' [sample_comment ''c1'' []]) None =
     Inr ([] @ hd (projr (transformPostToVectorFormat
                      (sample_post ''p1'' [sample_comment ''c1'' []]) None))
        # tl (projr (transformPostToVectorFormat
                      (sample_post ''p1'' [sample_comment ''c1'' []]) None)))
   \<and> tl (projr (transformPostToVectorFormat
                      (sample_post ''p1'' [sample_comment ''c1'' []]) None)) \<noteq> []
   \<and> fst (ingestItem always_401
        (hd (projr (transformPostToVectorFormat
                      (sample_post ''p1'' [sample_comment ''c1'' []]) None))) [])
       = Inl ''Vector DB authentication failed. Check your API token.''
   \<and> map d_id (posted (snd (ingestPosts always_401
        [sample_post ''p1'' [sample_comment ''c1'' []], sample_post ''p2'' []] None)))
       = [''p1'', ''p2'']
   \<and> map f_id (r_errors (fst (ingestPosts always_401
        [sample_post ''p1'' [sample_comment ''c1'' []], sample_post ''p2'' []] None)))
       = [''p1'', ''p2'']"
  using ingestPosts_auth_error_ends_post_only
    [where p = "sample_post ''p1'' [sample_comment ''c1'' []]" and platformName = None
       and pre = "[]"
       and d = "hd (projr (transformPostToVectorFormat
                      (sample_post ''p1'' [sample_comment ''c1'' []]) None))"
       and later = "tl (projr (transformPostToVectorFormat
                      (sample_post ''p1'' [sample_comment ''c1'' []]) None))"
       and srv = always_401
       and res = "\<lparr> r_total = 0, r_successful = 0, r_failed = 0, r_posts = 0, r_comments = 0,
                    r_errors = [] \<rparr>"
       and tr = "[]"
       and res' = "\<lparr> r_total = 2, r_successful = 0, r_failed = 0, r_posts = 0, r_comments = 0,
                     r_errors = [] \<rparr>"
       and tr' = "[]"
       and e = "''Vector DB authentication failed. Check your API token.''"
       and tr'' = "[Posted (hd (projr (transformPostToVectorFormat
                      (sample_post ''p1'' [sample_comment ''c1'' []]) None)))]"
       and rest = "[sample_post ''p2'' []]"]
  by (simp add: ingestPosts_def always_401_def sample_post_def sample_comment_def
        transformPostToVectorFormat_def Let_def ingestItem_def ingestAttempts.simps
        maxRetries_def valid_date_def)

text \<open>
  C2 as stated fails: with a store that answers 401 to everything, the document of the
  second post is still sent, and the run ends with a summary counting two failures.
\<close>

theorem ingestPosts_auth_abort_counterexample:
  "map d_id (posted (snd (ingestPosts always_401 [sample_post ''p1'' [], sample_post ''p2'' []] None)))
     = [''p1'', ''p2'']
   \<and> r_failed (fst (ingestPosts always_401 [sample_post ''p1'' [], sample_post ''p2'' []] None)) = 2"
  by (simp add: ingestPosts_def always_401_def sample_post_def transformPostToVectorFormat_def
        Let_def ingestItem_def ingestAttempts.simps maxRetries_def valid_date_def)







subsection \<open>Requests\<close>

lemma authenticate_trace: "snd (snd (authenticate env cl tr)) = tr @ [AuthenticateCall, TokenRequest]"
  by (simp add: authenticate_def Let_def split: sum.splits prod.splits)

lemma requestAttempts_trace:
  "\<exists>att. snd (snd (requestAttempts env url retries attempt cl tr)) = tr @ att
         \<and> \<not> list_ex is_guard att \<and> retry_shape att
         \<and> length (filter is_get att) \<le> retries - attempt"
proof (induction env url retries attempt cl tr rule: requestAttempts.induct)
  case (1 env url retries attempt cl tr)
  let ?g = "HttpGet url (accessToken cl)"
  let ?tr1 = "tr @ [?g]"
  show ?case
  proof (cases "attempt < retries")
    case False
    then show ?thesis by (simp add: requestAttempts.simps[of env url retries attempt cl tr])
  next
    case lt: True
    show ?thesis
    proof (cases "env_get env tr url (accessToken cl)")
      case (GetOk body)
      with lt have "snd (snd (requestAttempts env url retries attempt cl tr)) = tr @ [?g]"
        by (simp add: requestAttempts.simps[of env url retries attempt cl tr])
      moreover have "\<not> list_ex is_guard [?g]" "retry_shape [?g]"
        "length (filter is_get [?g]) \<le> retries - attempt" using lt by simp_all
      ultimately show ?thesis by blast
    next
      case (GetNoResponse msg)
      with lt have "snd (snd (requestAttempts env url retries attempt cl tr)) = tr @ [?g]"
        by (simp add: requestAttempts.simps[of env url retries attempt cl tr])
      moreover have "\<not> list_ex is_guard [?g]" "retry_shape [?g]"
        "length (filter is_get [?g]) \<le> retries - attempt" using lt by simp_all
      ultimately show ?thesis by blast
    next
      case (GetError status retryAfter msg)
      consider (rl) "status = 429" | (unauth) "status \<noteq> 429" "status = 401"
        | (server) "status \<noteq> 429" "status \<noteq> 401" "status \<ge> 500"
        | (other) "status \<noteq> 429" "status \<noteq> 401" "\<not> status \<ge> 500" by blast
      then show ?thesis
      proof cases
        case rl
        let ?d = "SetTimeout (case retryAfter of
                                Some h \<Rightarrow> if h \<noteq> [] then HeaderValue h
                                          else Ms (2 ^ attempt * 1000)
                              | None \<Rightarrow> Ms (2 ^ attempt * 1000))"
        from "1.IH"(1)[OF lt refl GetError rl]
        obtain att where att:
          "snd (snd (requestAttempts env url retries (attempt + 1) cl (?tr1 @ [?d])))
             = (?tr1 @ [?d]) @ att"
          "\<not> list_ex is_guard att" "retry_shape att"
          "length (filter is_get att) \<le> retries - (attempt + 1)" by blast
        from lt GetError rl att(1)
        have "snd (snd (requestAttempts env url retries attempt cl tr)) = tr @ (?g # ?d # att)"
          by (simp add: requestAttempts.simps[of env url retries attempt cl tr])
        moreover have "\<not> list_ex is_guard (?g # ?d # att)" "retry_shape (?g # ?d # att)"
          "length (filter is_get (?g # ?d # att)) \<le> retries - attempt"
          using att(2,3,4) lt by simp_all
        ultimately show ?thesis by blast
      next
        case unauth
        obtain r cl' tr' where a: "authenticate env cl ?tr1 = (r, cl', tr')"
          by (cases "authenticate env cl ?tr1") auto
        with authenticate_trace[of env cl ?tr1]
        have tr': "tr' = ?tr1 @ [AuthenticateCall, TokenRequest]" by simp
        show ?thesis
        proof (cases r)
          case (Inl e)
          with lt GetError unauth a tr'
          have "snd (snd (requestAttempts env url retries attempt cl tr))
                  = tr @ [?g, AuthenticateCall, TokenRequest]"
            by (simp add: requestAttempts.simps[of env url retries attempt cl tr])
          moreover have "\<not> list_ex is_guard [?g, AuthenticateCall, TokenRequest]"
            "retry_shape [?g, AuthenticateCall, TokenRequest]"
            "length (filter is_get [?g, AuthenticateCall, TokenRequest]) \<le> retries - attempt"
            using lt by simp_all
          ultimately show ?thesis by blast
        next
          case (Inr u)
          from "1.IH"(2)[OF lt refl GetError unauth(1) unauth(2) a[symmetric] Inr refl]
          obtain att where att:
            "snd (snd (requestAttempts env url retries (attempt + 1) cl' tr')) = tr' @ att"
            "\<not> list_ex is_guard att" "retry_shape att"
            "length (filter is_get att) \<le> retries - (attempt + 1)" by auto
          from lt GetError unauth a tr' Inr att(1)
          have "snd (snd (requestAttempts env url retries attempt cl tr))
                  = tr @ (?g # AuthenticateCall # TokenRequest # att)"
            by (simp add: requestAttempts.simps[of env url retries attempt cl tr])
          moreover have "\<not> list_ex is_guard (?g # AuthenticateCall # TokenRequest # att)"
            "retry_shape (?g # AuthenticateCall # TokenRequest # att)"
            "length (filter is_get (?g # AuthenticateCall # TokenRequest # att))
               \<le> retries - attempt"
            using att(2,3,4) lt by simp_all
          ultimately show ?thesis by blast
        qed
      next
        case server
        let ?d = "SetTimeout (Ms (2 ^ attempt * 1000))"
        from "1.IH"(3)[OF lt refl GetError server]
        obtain att where att:
          "snd (snd (requestAttempts env url retries (attempt + 1) cl (?tr1 @ [?d])))
             = (?tr1 @ [?d]) @ att"
          "\<not> list_ex is_guard att" "retry_shape att"
          "length (filter is_get att) \<le> retries - (attempt + 1)" by blast
        from lt GetError server att(1)
        have "snd (snd (requestAttempts env url retries attempt cl tr)) = tr @ (?g # ?d # att)"
          by (simp add: requestAttempts.simps[of env url retries attempt cl tr])
        moreover have "\<not> list_ex is_guard (?g # ?d # att)" "retry_shape (?g # ?d # att)"
          "length (filter is_get (?g # ?d # att)) \<le> retries - attempt"
          using att(2,3,4) lt by simp_all
        ultimately show ?thesis by blast
      next
        case other
        with lt GetError
        have "snd (snd (requestAttempts env url retries attempt cl tr)) = tr @ [?g]"
          by (simp add: requestAttempts.simps[of env url retries attempt cl tr])
        moreover have "\<not> list_ex is_guard [?g]" "retry_shape [?g]"
          "length (filter is_get [?g]) \<le> retries - attempt" using lt by simp_all
        ultimately show ?thesis by blast
      qed
    qed
  qed
qed

text \<open>
  C3, as the code has it. The events of one \<open>makeRequest\<close> split in two parts: a first
  part without any GET, in which \<open>ensureAuthenticated\<close> is entered once and then, unless
  it threw (then \<open>makeRequest\<close> throws the same error and nothing more happens),
  \<open>waitForRateLimit\<close> once; and the attempts, at most \<open>retries\<close> GETs, in
  which neither is entered again and every GET but the last is followed by one back-off
  timer or by one direct call of \<open>authenticate\<close>. Attempt by attempt: a GET answered 401
  is followed by \<open>authenticate\<close> and its token request, and by the next attempt if that
  succeeded; a GET answered 429 by a timer on the \<open>retry-after\<close> value or, without
  one, on \<open>2^attempt * 1000\<close>, then the next attempt; a GET answered with another status
  from 500 on by a timer on \<open>2^attempt * 1000\<close>, then the next attempt.
\<close>

theorem makeRequest_guards_once:
  "(\<exists>pre att. snd (snd (makeRequest env url retries cl tr)) = tr @ pre @ att
      \<and> \<not> list_ex is_get pre \<and> \<not> list_ex is_guard att \<and> retry_shape att
      \<and> length (filter is_get att) \<le> retries
      \<and> (case fst (ensureAuthenticated env cl tr) of
            Inl e \<Rightarrow> filter is_guard pre = [EnsureAuthenticated] \<and> att = []
                     \<and> fst (makeRequest env url retries cl tr) = Inl e
          | Inr u \<Rightarrow> filter is_guard pre = [EnsureAuthenticated, WaitForRateLimit]))
   \<and> (attempt < retries \<and> env_get env trx url (accessToken cx) = GetError 401 h msg \<longrightarrow>
        snd (snd (authenticate env cx (trx @ [HttpGet url (accessToken cx)])))
          = trx @ [HttpGet url (accessToken cx), AuthenticateCall, TokenRequest]
        \<and> requestAttempts env url retries attempt cx trx =
            (case authenticate env cx (trx @ [HttpGet url (accessToken cx)]) of
               (Inl e, cy, tr1) \<Rightarrow> (Inl e, cy, tr1)
             | (Inr u, cy, tr1) \<Rightarrow> requestAttempts env url retries (attempt + 1) cy tr1))
   \<and> (attempt < retries \<and> env_get env trx url (accessToken cx) = GetError 429 h msg \<longrightarrow>
        requestAttempts env url retries attempt cx trx =
          requestAttempts env url retries (attempt + 1) cx
            (trx @ [HttpGet url (accessToken cx),
                    SetTimeout (if truthy h then HeaderValue (the h)
                                else Ms (2 ^ attempt * 1000))]))
   \<and> (attempt < retries \<and> env_get env trx url (accessToken cx) = GetError status h msg
        \<and> status \<ge> 500 \<longrightarrow>
        requestAttempts env url retries attempt cx trx =
          requestAttempts env url retries (attempt + 1) cx
            (trx @ [HttpGet url (accessToken cx), SetTimeout (Ms (2 ^ attempt * 1000))]))"
proof -
  have placing: "\<exists>pre att. snd (snd (makeRequest env url retries cl tr)) = tr @ pre @ att
      \<and> \<not> list_ex is_get pre \<and> \<not> list_ex is_guard att \<and> retry_shape att
      \<and> length (filter is_get att) \<le> retries
      \<and> (case fst (ensureAuthenticated env cl tr) of
            Inl e \<Rightarrow> filter is_guard pre = [EnsureAuthenticated] \<and> att = []
                     \<and> fst (makeRequest env url retries cl tr) = Inl e
          | Inr u \<Rightarrow> filter is_guard pre = [EnsureAuthenticated, WaitForRateLimit])"
  proof -
    obtain r cl1 tr1 where e: "ensureAuthenticated env cl tr = (r, cl1, tr1)"
      by (cases "ensureAuthenticated env cl tr") auto
    have tr1: "tr1 = tr @ [EnsureAuthenticated] \<or>
               tr1 = tr @ [EnsureAuthenticated, AuthenticateCall, TokenRequest]"
      using e authenticate_trace[of env cl "tr @ [EnsureAuthenticated]"]
      by (auto simp: ensureAuthenticated_def Let_def split: if_splits)
    then obtain p1 where p1: "tr1 = tr @ p1" "\<not> list_ex is_get p1"
        "filter is_guard p1 = [EnsureAuthenticated]" by auto
    show ?thesis
    proof (cases r)
      case (Inl err)
      have "snd (snd (makeRequest env url retries cl tr)) = tr @ p1 @ []"
        using e Inl p1(1) by (simp add: makeRequest_def)
      moreover have "\<not> list_ex is_guard []" "retry_shape []"
        "length (filter is_get []) \<le> retries" by simp_all
      moreover have "fst (makeRequest env url retries cl tr) = Inl err"
        using e Inl by (simp add: makeRequest_def)
      ultimately have "\<exists>pre att. snd (snd (makeRequest env url retries cl tr)) = tr @ pre @ att
          \<and> \<not> list_ex is_get pre \<and> \<not> list_ex is_guard att \<and> retry_shape att
          \<and> length (filter is_get att) \<le> retries
          \<and> (filter is_guard pre = [EnsureAuthenticated] \<and> att = []
               \<and> fst (makeRequest env url retries cl tr) = Inl err)"
        using p1(2,3) by blast
      then show ?thesis using e Inl by simp
    next
      case (Inr u)
      obtain cl2 tr2 where w: "waitForRateLimit env cl1 tr1 = (cl2, tr2)"
        by (cases "waitForRateLimit env cl1 tr1") auto
      then obtain p2 where p2: "tr2 = tr1 @ p2" "\<not> list_ex is_get p2"
        "filter is_guard p2 = [WaitForRateLimit]"
        by (auto simp: waitForRateLimit_def Let_def split: if_splits)
      from requestAttempts_trace[of env url retries 0 cl2 tr2]
      obtain att where att: "snd (snd (requestAttempts env url retries 0 cl2 tr2)) = tr2 @ att"
        "\<not> list_ex is_guard att" "retry_shape att" "length (filter is_get att) \<le> retries"
        by auto
      have "snd (snd (makeRequest env url retries cl tr)) = tr @ (p1 @ p2) @ att"
        using e Inr w att(1) p1(1) p2(1) by (simp add: makeRequest_def)
      moreover have "\<not> list_ex is_get (p1 @ p2)" using p1(2) p2(2) by simp
      moreover have "filter is_guard (p1 @ p2) = [EnsureAuthenticated, WaitForRateLimit]"
        using p1(3) p2(3) by simp
      ultimately have "\<exists>pre att. snd (snd (makeRequest env url retries cl tr)) = tr @ pre @ att
          \<and> \<not> list_ex is_get pre \<and> \<not> list_ex is_guard att \<and> retry_shape att
          \<and> length (filter is_get att) \<le> retries
          \<and> filter is_guard pre = [EnsureAuthenticated, WaitForRateLimit]"
        using att(2,3,4) by blast
      then show ?thesis using e Inr by simp
    qed
  qed
  have on401: "attempt < retries \<and> env_get env trx url (accessToken cx) = GetError 401 h msg \<longrightarrow>
        snd (snd (authenticate env cx (trx @ [HttpGet url (accessToken cx)])))
          = trx @ [HttpGet url (accessToken cx), AuthenticateCall, TokenRequest]
        \<and> requestAttempts env url retries attempt cx trx =
            (case authenticate env cx (trx @ [HttpGet url (accessToken cx)]) of
               (Inl e, cy, tr1) \<Rightarrow> (Inl e, cy, tr1)
             | (Inr u, cy, tr1) \<Rightarrow> requestAttempts env url retries (attempt + 1) cy tr1)"
    using authenticate_trace[of env cx "trx @ [HttpGet url (accessToken cx)]"]
    by (simp add: requestAttempts.simps[of env url retries attempt cx trx])
  have on429: "attempt < retries \<and> env_get env trx url (accessToken cx) = GetError 429 h msg \<longrightarrow>
        requestAttempts env url retries attempt cx trx =
          requestAttempts env url retries (attempt + 1) cx
            (trx @ [HttpGet url (accessToken cx),
                    SetTimeout (if truthy h then HeaderValue (the h)
                                else Ms (2 ^ attempt * 1000))])"
    by (cases h) (simp_all add: requestAttempts.simps[of env url retries attempt cx trx])
  have on5xx: "attempt < retries \<and> env_get env trx url (accessToken cx) = GetError status h msg
        \<and> status \<ge> 500 \<longrightarrow>
        requestAttempts env url retries attempt cx trx =
          requestAttempts env url retries (attempt + 1) cx
            (trx @ [HttpGet url (accessToken cx), SetTimeout (Ms (2 ^ attempt * 1000))])"
    by (simp add: requestAttempts.simps[of env url retries attempt cx trx])
  from placing on401 on429 on5xx show ?thesis by blast
qed

theorem makeRequest_guards_once_witness:
  "(\<exists>pre att.
      [EnsureAuthenticated, AuthenticateCall, TokenRequest, WaitForRateLimit,
       HttpGet ''/new.json'' (Some ''tok''), SetTimeout (Ms 1000),
       HttpGet ''/new.json'' (Some ''tok'')] = [] @ pre @ att
      \<and> \<not> list_ex is_get pre \<and> \<not> list_ex is_guard att \<and> retry_shape att
      \<and> length (filter is_get att) \<le> 3
      \<and> filter is_guard pre = [EnsureAuthenticated, WaitForRateLimit])
   \<and> makeRequest (no_token_env) ''/new.json'' 3 fresh_client []
       = (Inl (AuthenticationFailed ''Request failed with status code 401''), fresh_client,
          [EnsureAuthenticated, AuthenticateCall, TokenRequest])
   \<and> env_get (retry_env (GetError 401 None ''Unauthorized'')) [] ''/new.json'' (Some ''tok'')
       = GetError 401 None ''Unauthorized''
   \<and> snd (snd (requestAttempts (retry_env (GetError 401 None ''Unauthorized'')) ''/new.json'' 3 0
        (fresh_client\<lparr>accessToken := Some ''tok''\<rparr>) []))
       = [HttpGet ''/new.json'' (Some ''tok''), AuthenticateCall, TokenRequest,
          HttpGet ''/new.json'' (Some ''tok'')]
   \<and> env_get (retry_env (GetError 429 (Some ''2'') ''Too Many Requests'')) [] ''/new.json''
        (Some ''tok'')
       = GetError 429 (Some ''2'') ''Too Many Requests''
   \<and> snd (snd (requestAttempts (retry_env (GetError 429 (Some ''2'') ''Too Many Requests''))
        ''/new.json'' 3 0 (fresh_client\<lparr>accessToken := Some ''tok''\<rparr>) []))
       = [HttpGet ''/new.json'' (Some ''tok''), SetTimeout (HeaderValue ''2''),
          HttpGet ''/new.json'' (Some ''tok'')]
   \<and> env_get (retry_env (GetError 503 None ''Service Unavailable'')) [] ''/new.json''
        (Some ''tok'')
       = GetError 503 None ''Service Unavailable''
   \<and> snd (snd (requestAttempts (retry_env (GetError 503 None ''Service Unavailable''))
        ''/new.json'' 3 0 (fresh_client\<lparr>accessToken := Some ''tok''\<rparr>) []))
       = [HttpGet ''/new.json'' (Some ''tok''), SetTimeout (Ms 1000),
          HttpGet ''/new.json'' (Some ''tok'')]"
  using makeRequest_guards_once
          [where env = "retry_env (GetError 401 None ''Unauthorized'')" and url = "''/new.json''" and retries = 3
             and cl = fresh_client and tr = "[]" and attempt = 0 and trx = "[]"
             and cx = "fresh_client\<lparr>accessToken := Some ''tok''\<rparr>"
             and h = "None" and msg = "''Unauthorized''" and status = 401]
        makeRequest_guards_once
          [where env = "retry_env (GetError 429 (Some ''2'') ''Too Many Requests'')" and url = "''/new.json''" and retries = 3
             and cl = fresh_client and tr = "[]" and attempt = 0 and trx = "[]"
             and cx = "fresh_client\<lparr>accessToken := Some ''tok''\<rparr>"
             and h = "Some ''2''" and msg = "''Too Many Requests''" and status = 429]
        makeRequest_guards_once
          [where env = "retry_env (GetError 503 None ''Service Unavailable'')" and url = "''/new.json''" and retries = 3
             and cl = fresh_client and tr = "[]" and attempt = 0 and trx = "[]"
             and cx = "fresh_client\<lparr>accessToken := Some ''tok''\<rparr>"
             and h = "None" and msg = "''Service Unavailable''" and status = 503]
        makeRequest_guards_once
          [where env = no_token_env and url = "''/new.json''" and retries = 3
             and cl = fresh_client and tr = "[]" and attempt = 0 and trx = "[]"
             and cx = "fresh_client\<lparr>accessToken := Some ''tok''\<rparr>"
             and h = None and msg = "''Server Error''" and status = 500]
  by (simp add: makeRequest_def ensureAuthenticated_def authenticate_def waitForRateLimit_def
        retry_env_def no_token_env_def fresh_client_def minRequestInterval_def Let_def
        requestAttempts.simps)

text \<open>
  C3 as stated fails: after a 500 answer the second GET follows the back-off timer with
  no call of \<open>ensureAuthenticated\<close> or \<open>waitForRateLimit\<close> in between.
\<close>

theorem makeRequest_guards_each_attempt_counterexample:
  "snd (snd (makeRequest (retry_env (GetError 500 None ''Server Error'')) ''/new.json'' 3
       fresh_client []))
     = [EnsureAuthenticated, AuthenticateCall, TokenRequest, WaitForRateLimit,
        HttpGet ''/new.json'' (Some ''tok''), SetTimeout (Ms 1000),
        HttpGet ''/new.json'' (Some ''tok'')]"
  by (simp add: makeRequest_def ensureAuthenticated_def authenticate_def waitForRateLimit_def
        retry_env_def fresh_client_def minRequestInterval_def Let_def requestAttempts.simps)

text \<open>
  C4 at a 429 answer with \<open>retry-after: 2\<close>: the header's string goes to the timer as it
  is, so the wait before the second GET is 2 milliseconds.
\<close>

theorem makeRequest_retry_after_as_milliseconds:
  "snd (snd (makeRequest (retry_env (GetError 429 (Some ''2'') ''Too Many Requests''))
       ''/new.json'' 3 fresh_client []))
     = [EnsureAuthenticated, AuthenticateCall, TokenRequest, WaitForRateLimit,
        HttpGet ''/new.json'' (Some ''tok''), SetTimeout (HeaderValue ''2''),
        HttpGet ''/new.json'' (Some ''tok'')]
   \<and> timer_ms (HeaderValue ''2'') = Some 2"
  by (simp add: makeRequest_def ensureAuthenticated_def authenticate_def waitForRateLimit_def
        retry_env_def fresh_client_def minRequestInterval_def Let_def clamp_timer_def
        digit_val_def requestAttempts.simps)


subsection \<open>The cutoff walk\<close>

lemma only_earlier_comments_iff:
  "only_earlier_comments T items evs \<longleftrightarrow>
     (\<forall>e \<in> set evs. \<exists>q \<in> set (takeWhile (\<lambda>it. \<not> is_old T it) items).
         e = CommentsRequest (item_id q))"
  by (simp add: only_earlier_comments_def list_all_iff list_ex_iff)

lemma only_earlier_comments_Cons:
  "only_earlier_comments T rest ext \<Longrightarrow> \<not> is_old T x \<Longrightarrow>
   only_earlier_comments T (x # rest) ext"
  by (auto simp: only_earlier_comments_iff)

lemma processChildren_props:
  "processChildren api sub T tm items flag posts tr = (flag', posts', tr') \<Longrightarrow>
   (\<exists>ext. tr' = tr @ ext \<and> only_earlier_comments T items ext)
   \<and> (list_ex (is_old T) items \<longrightarrow> flag') \<and> (flag \<longrightarrow> flag')
   \<and> (\<forall>p \<in> set posts'. p \<in> set posts \<or> T \<le> p_created_utc (fp_post p))"
proof (induction api sub T tm items flag posts tr rule: processChildren.induct)
  case (1 api sub cutoffTime testMode flag posts tr)
  then show ?case by (simp add: only_earlier_comments_iff)
next
  case (2 api sub cutoffTime testMode k rest flag posts tr)
  from "2.IH" "2.prems"
  obtain ext where "tr' = tr @ ext" "only_earlier_comments cutoffTime rest ext"
    and "list_ex (is_old cutoffTime) rest \<longrightarrow> flag'" "flag \<longrightarrow> flag'"
    and "\<forall>p \<in> set posts'. p \<in> set posts \<or> cutoffTime \<le> p_created_utc (fp_post p)"
    by auto
  then show ?case
    using only_earlier_comments_Cons[of cutoffTime rest ext "OtherItem k"] by auto
next
  case (3 api sub cutoffTime testMode rp rest flag posts tr)
  show ?case
  proof (cases "rp_created_utc rp < cutoffTime")
    case True
    with "3.prems" show ?thesis by (simp add: only_earlier_comments_iff)
  next
    case notold: False
    show ?thesis
    proof (cases "post_deleted rp")
      case True
      with notold "3.prems" "3.IH"(1)
      obtain ext where "tr' = tr @ ext" "only_earlier_comments cutoffTime rest ext"
        and "list_ex (is_old cutoffTime) rest \<longrightarrow> flag'" "flag \<longrightarrow> flag'"
        and "\<forall>p \<in> set posts'. p \<in> set posts \<or> cutoffTime \<le> p_created_utc (fp_post p)"
        by auto
      then show ?thesis
        using only_earlier_comments_Cons[of cutoffTime rest ext "T3 rp"] notold by auto
    next
      case live: False
      obtain po cs tr1 where ex: "extractPostData api tr rp = ((po, cs), tr1)"
        by (cases "extractPostData api tr rp") auto
      then have tr1: "tr1 = tr @ [CommentsRequest (rp_id rp)]" and po: "po = postObj rp"
        by (auto simp: extractPostData_def)
      let ?posts1 = "posts @ [\<lparr> fp_id = ''reddit_post_'' @ p_id po, fp_source = ''reddit'',
                                     fp_subreddit = sub, fp_post = po, fp_comments = cs \<rparr>]"
      have fresh: "\<forall>p \<in> set ?posts1. p \<in> set posts \<or> cutoffTime \<le> p_created_utc (fp_post p)"
        using notold po by (auto simp: postObj_def)
      show ?thesis
      proof (cases "testMode \<and> \<not> below_max testMode (length ?posts1)")
        case True
        with notold live ex "3.prems" have "flag' = True" "posts' = ?posts1" "tr' = tr1"
          by (auto simp: Let_def)
        with tr1 fresh notold show ?thesis
          by (auto simp: only_earlier_comments_iff)
      next
        case False
        with notold live ex "3.prems"
        have rec: "processChildren api sub cutoffTime testMode rest flag ?posts1 tr1
                     = (flag', posts', tr')"
          by (auto simp: Let_def split: if_splits)
        from "3.IH"(2)[OF notold live ex[symmetric] refl refl False rec]
        obtain ext where ext: "tr' = tr1 @ ext" "only_earlier_comments cutoffTime rest ext"
          and fl: "list_ex (is_old cutoffTime) rest \<longrightarrow> flag'" "flag \<longrightarrow> flag'"
          and ps: "\<forall>p \<in> set posts'. p \<in> set ?posts1 \<or> cutoffTime \<le> p_created_utc (fp_post p)"
          by blast
        have "tr' = tr @ (CommentsRequest (rp_id rp) # ext)" using ext(1) tr1 by simp
        moreover have "only_earlier_comments cutoffTime (T3 rp # rest)
                         (CommentsRequest (rp_id rp) # ext)"
          using ext(2) notold by (auto simp: only_earlier_comments_iff)
        moreover have "\<forall>p \<in> set posts'. p \<in> set posts \<or> cutoffTime \<le> p_created_utc (fp_post p)"
          using ps fresh by blast
        ultimately show ?thesis using fl notold by auto
      qed
    qed
  qed
qed


lemma only_earlier_comments_Nil: "only_earlier_comments T items []"
  by (simp add: only_earlier_comments_iff)

lemma page_request_split:
  assumes "tr @ PageRequest after # ext = pre @ PageRequest cur # suf"
    and "only_earlier_comments T items ext"
  shows "(\<exists>s0. tr = pre @ PageRequest cur # s0) \<or> (pre = tr \<and> cur = after \<and> suf = ext)"
proof -
  have noreq: "PageRequest cur \<notin> set ext"
    using assms(2) by (auto simp: only_earlier_comments_iff)
  from assms(1) obtain us where
    "tr = pre @ us \<and> us @ PageRequest after # ext = PageRequest cur # suf
     \<or> tr @ us = pre \<and> PageRequest after # ext = us @ PageRequest cur # suf"
    by (auto simp: append_eq_append_conv2)
  then show ?thesis
  proof
    assume a: "tr = pre @ us \<and> us @ PageRequest after # ext = PageRequest cur # suf"
    show ?thesis
    proof (cases us)
      case Nil with a show ?thesis by simp
    next
      case (Cons u us') with a show ?thesis by auto
    qed
  next
    assume b: "tr @ us = pre \<and> PageRequest after # ext = us @ PageRequest cur # suf"
    show ?thesis
    proof (cases us)
      case Nil with b show ?thesis by simp
    next
      case (Cons u us')
      with b have "ext = us' @ PageRequest cur # suf" by simp
      with noreq show ?thesis by simp
    qed
  qed
qed

lemma extend_trace:
  assumes no: "no_old_page api T tr"
    and data: "api_fetchNewPosts api tr after = Inr data"
    and ext: "only_earlier_comments T (pg_children data) ext"
  shows "stops_after_old api T (tr @ PageRequest after # ext)"
    and "\<not> list_ex (is_old T) (pg_children data) \<Longrightarrow>
         no_old_page api T (tr @ PageRequest after # ext)"
proof -
  show "stops_after_old api T (tr @ PageRequest after # ext)"
    unfolding stops_after_old_def
  proof (intro allI impI, elim conjE)
    fix pre cur suf pg
    assume eq: "tr @ PageRequest after # ext = pre @ PageRequest cur # suf"
      and pg: "api_fetchNewPosts api pre cur = Inr pg"
      and old: "list_ex (is_old T) (pg_children pg)"
    from page_request_split[OF eq ext]
    show "only_earlier_comments T (pg_children pg) suf"
    proof
      assume "\<exists>s0. tr = pre @ PageRequest cur # s0"
      with no pg old show ?thesis unfolding no_old_page_def by blast
    next
      assume "pre = tr \<and> cur = after \<and> suf = ext"
      with pg data ext show ?thesis by simp
    qed
  qed
next
  assume fresh: "\<not> list_ex (is_old T) (pg_children data)"
  show "no_old_page api T (tr @ PageRequest after # ext)"
    unfolding no_old_page_def
  proof (intro allI impI, elim conjE)
    fix pre cur suf pg
    assume eq: "tr @ PageRequest after # ext = pre @ PageRequest cur # suf"
      and pg: "api_fetchNewPosts api pre cur = Inr pg"
    from page_request_split[OF eq ext]
    show "\<not> list_ex (is_old T) (pg_children pg)"
    proof
      assume "\<exists>s0. tr = pre @ PageRequest cur # s0"
      with no pg show ?thesis unfolding no_old_page_def by blast
    next
      assume "pre = tr \<and> cur = after \<and> suf = ext"
      with pg data fresh show ?thesis by simp
    qed
  qed
qed

lemma failed_page_trace:
  assumes no: "no_old_page api T tr"
    and data: "api_fetchNewPosts api tr after = Inl e"
  shows "stops_after_old api T (tr @ [PageRequest after])"
  unfolding stops_after_old_def
proof (intro allI impI, elim conjE)
  fix pre cur suf pg
  assume eq: "tr @ [PageRequest after] = pre @ PageRequest cur # suf"
    and pg: "api_fetchNewPosts api pre cur = Inr pg"
    and old: "list_ex (is_old T) (pg_children pg)"
  from page_request_split[OF eq only_earlier_comments_Nil]
  show "only_earlier_comments T (pg_children pg) suf"
  proof
    assume "\<exists>s0. tr = pre @ PageRequest cur # s0"
    with no pg old show ?thesis unfolding no_old_page_def by blast
  next
    assume "pre = tr \<and> cur = after \<and> suf = []"
    with pg data show ?thesis by simp
  qed
qed

lemma fetchLoop_inv:
  "fetchLoop fuel api sub T tm after flag posts tr = Some (res, trF) \<Longrightarrow>
   (\<not> flag \<longrightarrow> no_old_page api T tr) \<Longrightarrow> stops_after_old api T tr \<Longrightarrow>
   \<forall>p \<in> set posts. T \<le> p_created_utc (fp_post p) \<Longrightarrow>
   stops_after_old api T trF
   \<and> (\<forall>ps. res = Inr ps \<longrightarrow> (\<forall>p \<in> set ps. T \<le> p_created_utc (fp_post p)))"
proof (induction fuel arbitrary: after flag posts tr)
  case 0
  then show ?case
    by (auto simp: fetchLoop.simps[of 0] split: if_splits)
next
  case (Suc n)
  show ?case
  proof (cases "\<not> flag \<and> below_max tm (length posts)")
    case False
    with Suc.prems show ?thesis
      by (auto simp: fetchLoop.simps[of "Suc n"] split: if_splits)
  next
    case go: True
    then have no: "no_old_page api T tr" using Suc.prems(2) by simp
    show ?thesis
    proof (cases "api_fetchNewPosts api tr after")
      case (Inl e)
      with go Suc.prems(1) have "res = Inl e" "trF = tr @ [PageRequest after]"
        by (auto simp: fetchLoop.simps[of "Suc n"])
      with failed_page_trace[OF no Inl] show ?thesis by simp
    next
      case (Inr data)
      show ?thesis
      proof (cases "pg_children data = []")
        case True
        with go Inr Suc.prems(1) have r: "res = Inr posts" "trF = tr @ [PageRequest after]"
          by (auto simp: fetchLoop.simps[of "Suc n"])
        have "only_earlier_comments T (pg_children data) []" by (rule only_earlier_comments_Nil)
        from extend_trace(1)[OF no Inr this] r Suc.prems(4) show ?thesis by simp
      next
        case nonempty: False
        obtain flag' posts' tr' where pc:
          "processChildren api sub T tm (pg_children data) flag posts (tr @ [PageRequest after])
             = (flag', posts', tr')"
          by (cases "processChildren api sub T tm (pg_children data) flag posts
                       (tr @ [PageRequest after])") auto
        from processChildren_props[OF pc] obtain ext where
          ext: "tr' = (tr @ [PageRequest after]) @ ext"
            "only_earlier_comments T (pg_children data) ext"
          and fl: "list_ex (is_old T) (pg_children data) \<longrightarrow> flag'"
          and ps: "\<forall>p \<in> set posts'. p \<in> set (posts) \<or> T \<le> p_created_utc (fp_post p)"
          by blast
        have tr': "tr' = tr @ PageRequest after # ext" using ext(1) by simp
        have st: "stops_after_old api T tr'"
          using extend_trace(1)[OF no Inr ext(2)] tr' by simp
        have nl: "\<not> flag' \<longrightarrow> no_old_page api T tr'"
          using extend_trace(2)[OF no Inr ext(2)] fl tr' by auto
        have ps': "\<forall>p \<in> set posts'. T \<le> p_created_utc (fp_post p)"
          using ps Suc.prems(4) by blast
        show ?thesis
        proof (cases "truthy (pg_after data)")
          case False
          with go Inr nonempty pc Suc.prems(1) have "res = Inr posts'" "trF = tr'"
            by (auto simp: fetchLoop.simps[of "Suc n"])
          with st ps' show ?thesis by simp
        next
          case True
          with go Inr nonempty pc Suc.prems(1)
          have "fetchLoop n api sub T tm (pg_after data) flag' posts' tr' = Some (res, trF)"
            by (auto simp: fetchLoop.simps[of "Suc n"])
          from Suc.IH[OF this nl st ps'] show ?thesis .
        qed
      qed
    qed
  qed
qed

lemma fetchLoop_returns_on_old:
  assumes "api_fetchNewPosts api tr after = Inr pg" and "list_ex (is_old T) (pg_children pg)"
  shows "\<exists>ps trF. fetchLoop (Suc n) api sub T tm after flag posts tr = Some (Inr ps, trF)"
proof (cases "\<not> flag \<and> below_max tm (length posts)")
  case False
  then show ?thesis by (auto simp: fetchLoop.simps[of "Suc n"])
next
  case go: True
  from assms(2) have nonempty: "pg_children pg \<noteq> []" by auto
  obtain flag' posts' tr' where pc:
    "processChildren api sub T tm (pg_children pg) flag posts (tr @ [PageRequest after])
       = (flag', posts', tr')"
    by (cases "processChildren api sub T tm (pg_children pg) flag posts
                 (tr @ [PageRequest after])") auto
  from processChildren_props[OF pc] assms(2) have "flag'" by blast
  then have "fetchLoop n api sub T tm (pg_after pg) flag' posts' tr' = Some (Inr posts', tr')"
    by (simp add: fetchLoop.simps[of n])
  with go assms(1) nonempty pc show ?thesis
    by (auto simp: fetchLoop.simps[of "Suc n"])
qed

text \<open>
  C7. For every cutoff and every feed: the posts a fetch returns were all created at or
  after the cutoff. Once a requested page holds a post older than the cutoff, everything
  the fetch does afterwards is comments requests for children that stand before that
  post on the same page: no further page is requested and nothing at or after the old
  post is fetched. And the loop iteration that receives such a page ends the fetch with
  a result, whatever fuel is left.
\<close>

theorem fetch_respects_cutoff:
  "(calculateTimeWindow now hours days = Inr T
      \<and> fetchPosts fuel api sub now hours days tm = Some (Inr posts, tr) \<longrightarrow>
      list_all (\<lambda>p. T \<le> p_created_utc (fp_post p)) posts)
   \<and> (calculateTimeWindow now hours days = Inr T
      \<and> fetchPosts fuel api sub now hours days tm = Some (res, pre @ PageRequest cur # suf)
      \<and> api_fetchNewPosts api pre cur = Inr pg \<and> list_ex (is_old T) (pg_children pg) \<longrightarrow>
      only_earlier_comments T (pg_children pg) suf)
   \<and> (api_fetchNewPosts api tr0 after = Inr pg \<and> list_ex (is_old T) (pg_children pg) \<longrightarrow>
      (\<exists>ps trF. fetchLoop (Suc n) api sub T tm after flag posts0 tr0 = Some (Inr ps, trF)))"
proof -
  have unfold_fetch: "fetchSince fuel api sub T tm = Some (r, t)"
    if "calculateTimeWindow now hours days = Inr T"
      and "fetchPosts fuel api sub now hours days tm = Some (r, t)"
      and "t \<noteq> []" for r t
    using that by (simp add: fetchPosts_def split: if_splits)
  have unfold_posts: "fetchSince fuel api sub T tm = Some (Inr ps, t)"
    if "calculateTimeWindow now hours days = Inr T"
      and "fetchPosts fuel api sub now hours days tm = Some (Inr ps, t)" for ps t
    using that by (simp add: fetchPosts_def split: if_splits)
  have base_no: "no_old_page api T [Authenticate]"
    by (auto simp: no_old_page_def Cons_eq_append_conv)
  have base_st: "stops_after_old api T [Authenticate]"
    by (auto simp: stops_after_old_def Cons_eq_append_conv)
  have inv: "stops_after_old api T trF
             \<and> (\<forall>ps. r = Inr ps \<longrightarrow> (\<forall>p \<in> set ps. T \<le> p_created_utc (fp_post p)))"
    if "fetchSince fuel api sub T tm = Some (r, trF)" for r trF
  proof (cases "api_authenticate api []")
    case (Some e)
    with that have "r = Inl e" "trF = [Authenticate]" by (auto simp: fetchSince_def)
    with base_st show ?thesis by simp
  next
    case None
    with that have "fetchLoop fuel api sub T tm None False [] [Authenticate] = Some (r, trF)"
      by (simp add: fetchSince_def)
    from fetchLoop_inv[OF this] base_no base_st show ?thesis by simp
  qed
  have a: "calculateTimeWindow now hours days = Inr T
      \<and> fetchPosts fuel api sub now hours days tm = Some (Inr posts, tr) \<longrightarrow>
      list_all (\<lambda>p. T \<le> p_created_utc (fp_post p)) posts"
    using inv[of "Inr posts" tr] unfold_posts[of posts tr] by (auto simp: list_all_iff)
  have b: "calculateTimeWindow now hours days = Inr T
      \<and> fetchPosts fuel api sub now hours days tm = Some (res, pre @ PageRequest cur # suf)
      \<and> api_fetchNewPosts api pre cur = Inr pg \<and> list_ex (is_old T) (pg_children pg) \<longrightarrow>
      only_earlier_comments T (pg_children pg) suf"
  proof (intro impI, elim conjE)
    assume w: "calculateTimeWindow now hours days = Inr T"
      and f0: "fetchPosts fuel api sub now hours days tm = Some (res, pre @ PageRequest cur # suf)"
      and pg: "api_fetchNewPosts api pre cur = Inr pg"
      and old: "list_ex (is_old T) (pg_children pg)"
    from unfold_fetch[OF w f0]
    have f: "fetchSince fuel api sub T tm = Some (res, pre @ PageRequest cur # suf)" by simp
    from inv[OF f] have "stops_after_old api T (pre @ PageRequest cur # suf)" by simp
    with pg old have "only_earlier_comments T (pg_children pg) suf"
      unfolding stops_after_old_def by blast
    then show "only_earlier_comments T (pg_children pg) suf" .
  qed
  from a b fetchLoop_returns_on_old[of api tr0 after pg T n sub tm flag posts0]
  show ?thesis by blast
qed


theorem fetch_respects_cutoff_witness:
  "calculateTimeWindow 3700000 (Some 1) None = Inr 100
   \<and> map (\<lambda>p. p_id (fp_post p))
        (projr (fst (the (fetchPosts 1 sample_api ''r/test'' 3700000 (Some 1) None False))))
     = [''new'']
   \<and> snd (the (fetchPosts 1 sample_api ''r/test'' 3700000 (Some 1) None False))
     = [Authenticate] @ PageRequest None # [CommentsRequest ''new'']
   \<and> api_fetchNewPosts sample_api [Authenticate] None = Inr sample_page
   \<and> list_ex (is_old 100) (pg_children sample_page)
   \<and> only_earlier_comments 100 (pg_children sample_page) [CommentsRequest ''new'']
   \<and> list_all (\<lambda>p. 100 \<le> p_created_utc (fp_post p))
        (projr (fst (the (fetchPosts 1 sample_api ''r/test'' 3700000 (Some 1) None False))))
   \<and> fst (the (fetchLoop (Suc 0) sample_api ''r/test'' 100 False None False [] [Authenticate]))
     = fst (the (fetchPosts 1 sample_api ''r/test'' 3700000 (Some 1) None False))"
  using fetch_respects_cutoff
    [where fuel = 1 and api = sample_api and sub = "''r/test''" and T = 100 and tm = False
       and now = 3700000 and hours = "Some 1" and days = None
       and posts = "projr (fst (the (fetchPosts 1 sample_api ''r/test'' 3700000 (Some 1) None False)))"
       and tr = "snd (the (fetchPosts 1 sample_api ''r/test'' 3700000 (Some 1) None False))"
       and res = "fst (the (fetchPosts 1 sample_api ''r/test'' 3700000 (Some 1) None False))"
       and pre = "[Authenticate]" and cur = None and suf = "[CommentsRequest ''new'']"
       and pg = sample_page and tr0 = "[Authenticate]" and after = None and n = 0
       and flag = False and posts0 = "[]"]
  by (simp add: fetchPosts_def calculateTimeWindow_def fetchSince_def sample_api_def
        sample_page_def link_post_def valid_date_def
        fetchLoop.simps[of "Suc 0"] fetchLoop.simps[of 0] below_max_def post_deleted_def
        extractPostData_def postObj_def only_earlier_comments_def Let_def)

subsection \<open>Jobs\<close>









text \<open>
  C10. \<open>deleteJob\<close> on an unknown id returns false and changes nothing; on a running
  job it throws and changes nothing, the job still being there; on any other job it
  returns true, removes that job and no other, and publishes one \<open>job_deleted\<close> event.
\<close>

theorem deleteJob_cases:
  "(m_jobs mgr jobId = None \<longrightarrow> deleteJob mgr jobId = (Inr False, mgr))
   \<and> (m_jobs mgr jobId = Some jb \<and> j_status jb = ''running'' \<longrightarrow>
        deleteJob mgr jobId = (Inl CannotDeleteRunning, mgr)
        \<and> m_jobs (snd (deleteJob mgr jobId)) jobId = Some jb)
   \<and> (m_jobs mgr jobId = Some jb \<and> j_status jb \<noteq> ''running'' \<longrightarrow>
        fst (deleteJob mgr jobId) = Inr True
        \<and> m_jobs (snd (deleteJob mgr jobId)) jobId = None
        \<and> (\<forall>k. k \<noteq> jobId \<longrightarrow> m_jobs (snd (deleteJob mgr jobId)) k = m_jobs mgr k)
        \<and> m_emitted (snd (deleteJob mgr jobId)) = m_emitted mgr @ [JobDeleted jobId]
        \<and> m_nextJobId (snd (deleteJob mgr jobId)) = m_nextJobId mgr)"
  by (simp add: deleteJob_def)

theorem deleteJob_cases_witness:
  "m_jobs one_job 7 = None \<and> deleteJob one_job 7 = (Inr False, one_job)
   \<and> j_status (the (m_jobs running_job 1)) = ''running''
   \<and> deleteJob running_job 1 = (Inl CannotDeleteRunning, running_job)
   \<and> j_status (the (m_jobs one_job 1)) = ''pending''
   \<and> fst (deleteJob one_job 1) = Inr True
   \<and> m_jobs (snd (deleteJob one_job 1)) 1 = None
   \<and> m_emitted (snd (deleteJob one_job 1)) = m_emitted one_job @ [JobDeleted 1]"
  using deleteJob_cases [of one_job 7 "the (m_jobs one_job 1)"]
        deleteJob_cases [of running_job 1 "the (m_jobs running_job 1)"]
        deleteJob_cases [of one_job 1 "the (m_jobs one_job 1)"]
  by (simp add: one_job_def running_job_def empty_manager_def createJob_def Let_def)

end
